theory Spec2Isabelle
  imports Main "HOL-Library.Multiset"
begin

section \<open>Janggi: a shallow embedding of JanggiGame.py\<close>

text \<open>
  The Python program keeps a board (a list of ten rows of nine cells), piece objects with a
  mutable location string, two players with a list of pieces each (the "cart"), a one-slot
  buffer for undoing a temporary move, the game state and the current player. Board squares
  are named by strings in algebraic notation; every method decodes the strings it is given.
  Exceptions of the Python run time are values of the type \<open>error\<close>.
\<close>

subsection \<open>Errors\<close>

datatype error = KeyError | IndexError | AttributeError

definition bindE :: "error + 'a \<Rightarrow> ('a \<Rightarrow> error + 'b) \<Rightarrow> error + 'b" where
  "bindE m f = (case m of Inl e \<Rightarrow> Inl e | Inr x \<Rightarrow> f x)"

text \<open>Subscripting a dictionary raises KeyError on a missing key.\<close>

definition dict_get :: "('k \<times> 'v) list \<Rightarrow> 'k \<Rightarrow> error + 'v" where
  "dict_get d k = (case map_of d k of None \<Rightarrow> Inl KeyError | Some v \<Rightarrow> Inr v)"

text \<open>\<open>location[i]\<close> for a literal index \<open>i \<ge> 0\<close>: a one-character string, or IndexError.\<close>

definition str_index :: "string \<Rightarrow> nat \<Rightarrow> error + string" where
  "str_index s i = (if i < length s then Inr [s ! i] else Inl IndexError)"

subsection \<open>Location codec (Board.decode\_location, Board.encode\_location)\<close>

definition column_key :: "(string \<times> int) list" where
  "column_key = [(''a'', 0), (''b'', 1), (''c'', 2), (''d'', 3), (''e'', 4),
                 (''f'', 5), (''g'', 6), (''h'', 7), (''i'', 8)]"

definition row_key :: "(string \<times> int) list" where
  "row_key = [(''1'', 0), (''2'', 1), (''3'', 2), (''4'', 3), (''5'', 4),
              (''6'', 5), (''7'', 6), (''8'', 7), (''9'', 8), (''10'', 9)]"

definition decode_location :: "string \<Rightarrow> error + (int \<times> int)" where
  "decode_location location =
     bindE (str_index location 0) (\<lambda>c0.
     bindE (dict_get column_key c0) (\<lambda>column.
     bindE (if length location = 3 then dict_get row_key (drop 1 location)
            else bindE (str_index location 1) (dict_get row_key)) (\<lambda>row.
     Inr (row, column))))"

definition column_name :: "(int \<times> string) list" where
  "column_name = [(0, ''a''), (1, ''b''), (2, ''c''), (3, ''d''), (4, ''e''),
                  (5, ''f''), (6, ''g''), (7, ''h''), (8, ''i'')]"

definition row_name :: "(int \<times> string) list" where
  "row_name = [(0, ''1''), (1, ''2''), (2, ''3''), (3, ''4''), (4, ''5''),
               (5, ''6''), (6, ''7''), (7, ''8''), (8, ''9''), (9, ''10'')]"

definition encode_location :: "int \<Rightarrow> int \<Rightarrow> error + string" where
  "encode_location row column =
     bindE (dict_get column_name column) (\<lambda>col.
     bindE (dict_get row_name row) (\<lambda>r.
     Inr (col @ r)))"

text \<open>
  The coordinate text format as the specification words it: one letter a to i, followed by
  the decimal numeral of a number from 1 to 10, and nothing else.
\<close>

definition well_formed :: "string \<Rightarrow> bool" where
  "well_formed text =
     (case text of
        [] \<Rightarrow> False
      | c # ds \<Rightarrow> c \<in> set ''abcdefghi'' \<and>
                 (ds \<in> set (map (\<lambda>d. [d]) ''123456789'') \<or> ds = ''10''))"

definition valid_index :: "int \<Rightarrow> int \<Rightarrow> bool" where
  "valid_index row column = (0 \<le> row \<and> row \<le> 9 \<and> 0 \<le> column \<and> column \<le> 8)"


subsection \<open>Pieces, players and the game\<close>

datatype color = Blue | Red

fun get_color :: "color \<Rightarrow> string" where
  "get_color Blue = ''blue''"
| "get_color Red = ''red''"

fun opponent_of :: "color \<Rightarrow> color" where
  "opponent_of Blue = Red"
| "opponent_of Red = Blue"

datatype kind = General | Guard | Elephant | Horse | Chariot | Cannon | Soldier

fun get_name :: "kind \<Rightarrow> string" where
  "get_name General = ''GN''"
| "get_name Guard = ''GD''"
| "get_name Elephant = ''EL''"
| "get_name Horse = ''HO''"
| "get_name Chariot = ''CH''"
| "get_name Cannon = ''CA''"
| "get_name Soldier = ''SD''"

text \<open>
  A piece object: its class (which fixes its name), its location string and its owner.
  Only the location is ever assigned after construction.
\<close>

record piece =
  piece_kind :: kind
  piece_location :: string
  piece_owner :: color

text \<open>
  Piece objects are shared between the board cells and the carts, so the game holds them
  in a store indexed by object identity; cells, carts and the undo buffer hold identities.
\<close>

record game =
  board :: "nat option list list"
  pieces :: "nat \<Rightarrow> piece"
  blue_cart :: "nat list"
  red_cart :: "nat list"
  temp :: "nat option"
  game_state :: string
  current_player :: color

text \<open>Subscripting a Python list: a negative index counts from the end.\<close>

definition list_get :: "'a list \<Rightarrow> int \<Rightarrow> error + 'a" where
  "list_get xs i =
     (if 0 \<le> i \<and> i < int (length xs) then Inr (xs ! nat i)
      else if i < 0 \<and> - int (length xs) \<le> i then Inr (xs ! nat (i + int (length xs)))
      else Inl IndexError)"

definition list_set :: "'a list \<Rightarrow> int \<Rightarrow> 'a \<Rightarrow> error + 'a list" where
  "list_set xs i v =
     (if 0 \<le> i \<and> i < int (length xs) then Inr (xs[nat i := v])
      else if i < 0 \<and> - int (length xs) \<le> i then Inr (xs[nat (i + int (length xs)) := v])
      else Inl IndexError)"

definition board_get :: "'a list list \<Rightarrow> int \<Rightarrow> int \<Rightarrow> error + 'a" where
  "board_get b row column = bindE (list_get b row) (\<lambda>r. list_get r column)"

definition board_set :: "'a list list \<Rightarrow> int \<Rightarrow> int \<Rightarrow> 'a \<Rightarrow> error + 'a list list" where
  "board_set b row column v =
     bindE (list_get b row) (\<lambda>r.
     bindE (list_set r column v) (\<lambda>r'.
     list_set b row r'))"

fun get_cart :: "game \<Rightarrow> color \<Rightarrow> nat list" where
  "get_cart g Blue = blue_cart g"
| "get_cart g Red = red_cart g"

fun add_piece :: "color \<Rightarrow> nat \<Rightarrow> game \<Rightarrow> game" where
  "add_piece Blue p g = g\<lparr>blue_cart := blue_cart g @ [p]\<rparr>"
| "add_piece Red p g = g\<lparr>red_cart := red_cart g @ [p]\<rparr>"

fun remove_piece :: "color \<Rightarrow> nat \<Rightarrow> game \<Rightarrow> game" where
  "remove_piece Blue p g =
     (if p \<in> set (blue_cart g) then g\<lparr>blue_cart := remove1 p (blue_cart g)\<rparr> else g)"
| "remove_piece Red p g =
     (if p \<in> set (red_cart g) then g\<lparr>red_cart := remove1 p (red_cart g)\<rparr> else g)"

text \<open>Player.get\_general: the last piece of the cart named GN, or None.\<close>

definition get_general :: "game \<Rightarrow> color \<Rightarrow> nat option" where
  "get_general g player =
     foldl (\<lambda>general p. if get_name (piece_kind (pieces g p)) = ''GN'' then Some p else general)
       None (get_cart g player)"

definition set_location :: "nat \<Rightarrow> string \<Rightarrow> game \<Rightarrow> game" where
  "set_location p l g = g\<lparr>pieces := (pieces g)(p := (pieces g p)\<lparr>piece_location := l\<rparr>)\<rparr>"

definition get_occupant :: "game \<Rightarrow> string \<Rightarrow> error + nat option" where
  "get_occupant g loc =
     bindE (decode_location loc) (\<lambda>(row, column). board_get (board g) row column)"

subsection \<open>Methods that change the game\<close>

text \<open>
  A method that assigns to the board, the carts or a piece takes the game and returns its
  result, or the exception it raised, together with the game as the method left it.
\<close>

definition bindS :: "(game \<Rightarrow> (error + 'a) \<times> game) \<Rightarrow> ('a \<Rightarrow> game \<Rightarrow> (error + 'b) \<times> game) \<Rightarrow>
    game \<Rightarrow> (error + 'b) \<times> game" where
  "bindS m f g = (case m g of (Inl e, g') \<Rightarrow> (Inl e, g') | (Inr x, g') \<Rightarrow> f x g')"

definition pureS :: "error + 'a \<Rightarrow> game \<Rightarrow> (error + 'a) \<times> game" where
  "pureS r g = (r, g)"

definition reads :: "(game \<Rightarrow> error + 'a) \<Rightarrow> game \<Rightarrow> (error + 'a) \<times> game" where
  "reads f g = (f g, g)"

definition gets :: "(game \<Rightarrow> 'a) \<Rightarrow> game \<Rightarrow> (error + 'a) \<times> game" where
  "gets f g = (Inr (f g), g)"

definition modify :: "(game \<Rightarrow> game) \<Rightarrow> game \<Rightarrow> (error + unit) \<times> game" where
  "modify f g = (Inr (), f g)"

definition write_cell :: "int \<Rightarrow> int \<Rightarrow> nat option \<Rightarrow> game \<Rightarrow> (error + unit) \<times> game" where
  "write_cell row column v g =
     (case board_set (board g) row column v of
        Inl e \<Rightarrow> (Inl e, g)
      | Inr b \<Rightarrow> (Inr (), g\<lparr>board := b\<rparr>))"

definition prep_temp_move :: "string \<Rightarrow> game \<Rightarrow> (error + unit) \<times> game" where
  "prep_temp_move destination =
     bindS (pureS (decode_location destination)) (\<lambda>(row, column).
     bindS (reads (\<lambda>g. board_get (board g) row column)) (\<lambda>p.
     modify (\<lambda>g. g\<lparr>temp := p\<rparr>)))"

definition move_piece :: "string \<Rightarrow> string \<Rightarrow> game \<Rightarrow> (error + unit) \<times> game" where
  "move_piece source destination =
     bindS (pureS (decode_location source)) (\<lambda>(source_row, source_column).
     bindS (pureS (decode_location destination)) (\<lambda>(dest_row, dest_column).
     bindS (reads (\<lambda>g. board_get (board g) source_row source_column)) (\<lambda>source_piece.
     bindS (reads (\<lambda>g. board_get (board g) dest_row dest_column)) (\<lambda>dest_piece.
     bindS (modify (\<lambda>g. case dest_piece of
                          None \<Rightarrow> g
                        | Some dp \<Rightarrow> if piece_owner (pieces g dp) = Blue
                                    then remove_piece Blue dp g else remove_piece Red dp g)) (\<lambda>_.
     bindS (write_cell dest_row dest_column source_piece) (\<lambda>_.
     bindS (case source_piece of
              None \<Rightarrow> pureS (Inl AttributeError)
            | Some sp \<Rightarrow> modify (set_location sp destination)) (\<lambda>_.
     write_cell source_row source_column None)))))))"

definition undo_temp_move :: "string \<Rightarrow> string \<Rightarrow> game \<Rightarrow> (error + unit) \<times> game" where
  "undo_temp_move source destination =
     bindS (gets temp) (\<lambda>temp_piece.
     bindS (pureS (decode_location source)) (\<lambda>(source_row, source_column).
     bindS (pureS (decode_location destination)) (\<lambda>(dest_row, dest_column).
     bindS (reads (\<lambda>g. board_get (board g) dest_row dest_column)) (\<lambda>moved.
     bindS (write_cell source_row source_column moved) (\<lambda>_.
     bindS (case moved of
              None \<Rightarrow> pureS (Inl AttributeError)
            | Some mp \<Rightarrow> modify (set_location mp source)) (\<lambda>_.
     bindS (write_cell dest_row dest_column temp_piece) (\<lambda>_.
     bindS (modify (\<lambda>g. case temp_piece of
                          None \<Rightarrow> g
                        | Some tp \<Rightarrow> add_piece (piece_owner (pieces g tp)) tp g)) (\<lambda>_.
     modify (\<lambda>g. g\<lparr>temp := None\<rparr>)))))))))"


subsection \<open>Movement rules of the seven pieces\<close>

definition palace :: "string list" where
  "palace = [''d8'', ''d9'', ''d10'', ''e8'', ''e9'', ''e10'', ''f8'', ''f9'', ''f10'',
             ''d1'', ''d2'', ''d3'', ''e1'', ''e2'', ''e3'', ''f1'', ''f2'', ''f3'']"

definition palace_corners :: "string list" where
  "palace_corners = [''d1'', ''f1'', ''d3'', ''f3'', ''d8'', ''f8'', ''d10'', ''f10'']"

definition palace_centers :: "string list" where
  "palace_centers = [''e2'', ''e9'']"

definition blue_palace_corners :: "string list" where
  "blue_palace_corners = [''d8'', ''f8'', ''d10'', ''f10'']"

definition red_palace_corners :: "string list" where
  "red_palace_corners = [''d1'', ''f1'', ''d3'', ''f3'']"

text \<open>
  The test that opens every movement rule: the destination holds a piece whose owner is the
  owner of the moving piece.
\<close>

definition friendly :: "game \<Rightarrow> nat \<Rightarrow> nat option \<Rightarrow> bool" where
  "friendly g self occ =
     (case occ of None \<Rightarrow> False
      | Some q \<Rightarrow> piece_owner (pieces g self) = piece_owner (pieces g q))"

text \<open>The loop of Elephant, Horse and Chariot: any occupied square of the path blocks.\<close>

fun path_clear :: "game \<Rightarrow> string list \<Rightarrow> error + bool" where
  "path_clear g [] = Inr True"
| "path_clear g (square # squares) =
     bindE (get_occupant g square) (\<lambda>occ.
       if occ \<noteq> None then Inr False else path_clear g squares)"

fun mapE :: "('a \<Rightarrow> error + 'b) \<Rightarrow> 'a list \<Rightarrow> error + 'b list" where
  "mapE f [] = Inr []"
| "mapE f (x # xs) = bindE (f x) (\<lambda>y. bindE (mapE f xs) (\<lambda>ys. Inr (y # ys)))"

definition General_is_legal :: "game \<Rightarrow> nat \<Rightarrow> string \<Rightarrow> string \<Rightarrow> error + bool" where
  "General_is_legal g self source destination =
     bindE (decode_location source) (\<lambda>(from_row, from_col).
     bindE (decode_location destination) (\<lambda>(to_row, to_col).
     bindE (board_get (board g) to_row to_col) (\<lambda>destination_square.
     bindE (encode_location to_row to_col) (\<lambda>destination_location.
     Inr (if friendly g self destination_square then False
          else if destination_location \<notin> set palace then False
          else if \<bar>to_row - from_row\<bar> > 1 \<or> \<bar>to_col - from_col\<bar> > 1 then False
          else if \<bar>to_row - from_row\<bar> = 1 \<and> \<bar>to_col - from_col\<bar> = 1 then
            (if source \<in> set palace_corners then destination \<in> set palace_centers
             else if source \<in> set palace_centers then destination \<in> set palace_corners
             else False)
          else True)))))"

definition Guard_is_legal :: "game \<Rightarrow> nat \<Rightarrow> string \<Rightarrow> string \<Rightarrow> error + bool" where
  "Guard_is_legal g self source destination =
     bindE (decode_location source) (\<lambda>(from_row, from_col).
     bindE (decode_location destination) (\<lambda>(to_row, to_col).
     bindE (board_get (board g) to_row to_col) (\<lambda>destination_piece.
     Inr (if friendly g self destination_piece then False
          else if destination \<notin> set palace then False
          else if \<bar>to_row - from_row\<bar> > 1 \<or> \<bar>to_col - from_col\<bar> > 1 then False
          else if \<bar>to_row - from_row\<bar> = 1 \<and> \<bar>to_col - from_col\<bar> = 1 then
            (if source \<in> set palace_corners then destination \<in> set palace_centers
             else if source \<in> set palace_centers then destination \<in> set palace_corners
             else False)
          else True))))"

text \<open>
  Elephant.move\_path: four independent blocks, each appending the orthogonal square and
  then the diagonal square; encode\_location raises on a square off the board.
\<close>

definition Elephant_move_path :: "string \<Rightarrow> string \<Rightarrow> error + string list" where
  "Elephant_move_path source destination =
     bindE (decode_location source) (\<lambda>(from_row, from_col).
     bindE (decode_location destination) (\<lambda>(to_row, to_col).
     bindE (if to_row - from_row = - 3 then
              bindE (encode_location (from_row - 1) from_col) (\<lambda>s1.
              bindE (if to_col - from_col = 2 then encode_location (from_row - 2) (from_col + 1)
                     else encode_location (from_row - 2) (from_col - 1)) (\<lambda>s2.
              Inr [s1, s2]))
            else Inr []) (\<lambda>up.
     bindE (if to_row - from_row = 3 then
              bindE (encode_location (from_row + 1) from_col) (\<lambda>s1.
              bindE (if to_col - from_col = 2 then encode_location (from_row + 2) (from_col + 1)
                     else encode_location (from_row + 2) (from_col - 1)) (\<lambda>s2.
              Inr [s1, s2]))
            else Inr []) (\<lambda>down.
     bindE (if to_col - from_col = 3 then
              bindE (encode_location from_row (from_col + 1)) (\<lambda>s1.
              bindE (if to_row - from_row = 2 then encode_location (from_row + 1) (from_col + 2)
                     else encode_location (from_row - 1) (from_col + 2)) (\<lambda>s2.
              Inr [s1, s2]))
            else Inr []) (\<lambda>right.
     bindE (if to_col - from_col = - 3 then
              bindE (encode_location from_row (from_col - 1)) (\<lambda>s1.
              bindE (if to_row - from_row = 2 then encode_location (from_row + 1) (from_col - 2)
                     else encode_location (from_row - 1) (from_col - 2)) (\<lambda>s2.
              Inr [s1, s2]))
            else Inr []) (\<lambda>left.
     Inr (up @ down @ right @ left)))))))"

definition Elephant_is_legal :: "game \<Rightarrow> nat \<Rightarrow> string \<Rightarrow> string \<Rightarrow> error + bool" where
  "Elephant_is_legal g self source destination =
     bindE (decode_location source) (\<lambda>(from_row, from_col).
     bindE (decode_location destination) (\<lambda>(to_row, to_col).
     bindE (board_get (board g) to_row to_col) (\<lambda>destination_piece.
     if friendly g self destination_piece then Inr False
     else if \<bar>to_row - from_row\<bar> = 3 \<and> \<bar>to_col - from_col\<bar> = 2 then
       bindE (Elephant_move_path source destination) (path_clear g)
     else if \<bar>to_row - from_row\<bar> = 2 \<and> \<bar>to_col - from_col\<bar> = 3 then
       bindE (Elephant_move_path source destination) (path_clear g)
     else Inr False)))"

definition Horse_move_path :: "string \<Rightarrow> string \<Rightarrow> error + string list" where
  "Horse_move_path source destination =
     bindE (decode_location source) (\<lambda>(from_row, from_col).
     bindE (decode_location destination) (\<lambda>(to_row, to_col).
     bindE (if to_row - from_row = - 2
            then bindE (encode_location (from_row - 1) from_col) (\<lambda>s. Inr [s])
            else Inr []) (\<lambda>up.
     bindE (if to_row - from_row = 2
            then bindE (encode_location (from_row + 1) from_col) (\<lambda>s. Inr [s])
            else Inr []) (\<lambda>down.
     bindE (if to_col - from_col = 2
            then bindE (encode_location from_row (from_col + 1)) (\<lambda>s. Inr [s])
            else Inr []) (\<lambda>right.
     bindE (if to_col - from_col = - 2
            then bindE (encode_location from_row (from_col - 1)) (\<lambda>s. Inr [s])
            else Inr []) (\<lambda>left.
     Inr (up @ down @ right @ left)))))))"

definition Horse_is_legal :: "game \<Rightarrow> nat \<Rightarrow> string \<Rightarrow> string \<Rightarrow> error + bool" where
  "Horse_is_legal g self source destination =
     bindE (decode_location source) (\<lambda>(from_row, from_col).
     bindE (decode_location destination) (\<lambda>(to_row, to_col).
     bindE (board_get (board g) to_row to_col) (\<lambda>destination_piece.
     if friendly g self destination_piece then Inr False
     else if \<bar>to_row - from_row\<bar> = 2 \<and> \<bar>to_col - from_col\<bar> = 1 then
       bindE (Horse_move_path source destination) (path_clear g)
     else if \<bar>to_row - from_row\<bar> = 1 \<and> \<bar>to_col - from_col\<bar> = 2 then
       bindE (Horse_move_path source destination) (path_clear g)
     else Inr False)))"

text \<open>
  Chariot.move\_path. \<open>range(a + 1, b)\<close> is \<open>[a + 1 .. b - 1]\<close> and
  \<open>range(a - 1, b, -1)\<close> is the reverse of \<open>[b + 1 .. a - 1]\<close>.
\<close>

definition Chariot_move_path :: "string \<Rightarrow> string \<Rightarrow> error + string list" where
  "Chariot_move_path source destination =
     bindE (decode_location source) (\<lambda>(from_row, from_col).
     bindE (decode_location destination) (\<lambda>(to_row, to_col).
     if source \<in> set palace_corners \<and> destination \<in> set palace_corners
        \<and> \<bar>to_row - from_row\<bar> = \<bar>to_col - from_col\<bar>
     then Inr (if source \<in> set blue_palace_corners then [''e9''] else [''e2''])
     else if (source \<in> set palace_corners \<and> destination \<in> set palace_centers)
           \<or> (destination \<in> set palace_corners \<and> source \<in> set palace_centers)
     then Inr []
     else
       bindE (if from_row = to_row then
                mapE (\<lambda>column. encode_location from_row column)
                  (if to_col > from_col then [from_col + 1 .. to_col - 1]
                   else rev [to_col + 1 .. from_col - 1])
              else Inr []) (\<lambda>horizontal.
       bindE (if from_col = to_col then
                mapE (\<lambda>row. encode_location row from_col)
                  (if to_row > from_row then [from_row + 1 .. to_row - 1]
                   else rev [to_row + 1 .. from_row - 1])
              else Inr []) (\<lambda>vertical.
       Inr (horizontal @ vertical)))))"

text \<open>
  The closing test of Chariot.is\_legal and Cannon.is\_legal (the same lines in both): a
  move that changes both row and column must run along a palace diagonal.
\<close>

definition palace_diagonal_ok :: "string \<Rightarrow> string \<Rightarrow> bool" where
  "palace_diagonal_ok source destination =
     (if source \<in> set palace_corners then
        (if source \<in> set blue_palace_corners \<and> destination \<in> set blue_palace_corners then True
         else if source \<in> set blue_palace_corners \<and> destination = ''e9'' then True
         else if source \<in> set red_palace_corners \<and> destination \<in> set red_palace_corners then True
         else if source \<in> set red_palace_corners \<and> destination = ''e2'' then True
         else False)
      else if source = ''e9'' then destination \<in> set blue_palace_corners
      else if source = ''e2'' then destination \<in> set red_palace_corners
      else False)"

definition Chariot_is_legal :: "game \<Rightarrow> nat \<Rightarrow> string \<Rightarrow> string \<Rightarrow> error + bool" where
  "Chariot_is_legal g self source destination =
     bindE (decode_location source) (\<lambda>(from_row, from_col).
     bindE (decode_location destination) (\<lambda>(to_row, to_col).
     bindE (board_get (board g) to_row to_col) (\<lambda>destination_piece.
     if friendly g self destination_piece then Inr False
     else
       bindE (Chariot_move_path source destination) (\<lambda>path.
       bindE (path_clear g path) (\<lambda>clear.
       Inr (if \<not> clear then False
            else if from_row \<noteq> to_row \<and> from_col \<noteq> to_col
                 then palace_diagonal_ok source destination
            else True))))))"

text \<open>Cannon.move\_path repeats the body of Chariot.move\_path line by line.\<close>

definition Cannon_move_path :: "string \<Rightarrow> string \<Rightarrow> error + string list" where
  "Cannon_move_path source destination = Chariot_move_path source destination"

text \<open>The counting loop of Cannon.is\_legal over the path: (jumps, cannon\_in\_path).\<close>

fun count_jumps :: "game \<Rightarrow> string list \<Rightarrow> nat \<times> bool \<Rightarrow> error + nat \<times> bool" where
  "count_jumps g [] acc = Inr acc"
| "count_jumps g (square # squares) acc =
     bindE (get_occupant g square) (\<lambda>occ.
       case occ of
         None \<Rightarrow> count_jumps g squares acc
       | Some q \<Rightarrow> count_jumps g squares
                    (fst acc + 1, snd acc \<or> get_name (piece_kind (pieces g q)) = ''CA''))"

definition Cannon_is_legal :: "game \<Rightarrow> nat \<Rightarrow> string \<Rightarrow> string \<Rightarrow> error + bool" where
  "Cannon_is_legal g self source destination =
     bindE (decode_location source) (\<lambda>(from_row, from_col).
     bindE (decode_location destination) (\<lambda>(to_row, to_col).
     bindE (board_get (board g) to_row to_col) (\<lambda>destination_piece.
     if friendly g self destination_piece then Inr False
     else if (case destination_piece of None \<Rightarrow> False
              | Some q \<Rightarrow> get_name (piece_kind (pieces g q)) = ''CA'') then Inr False
     else
       bindE (Cannon_move_path source destination) (\<lambda>path.
       bindE (count_jumps g path (0, False)) (\<lambda>(jumps, cannon_in_path).
       Inr (if jumps = 0 \<or> jumps > 1 then False
            else if cannon_in_path then False
            else if from_row \<noteq> to_row \<and> from_col \<noteq> to_col
                 then palace_diagonal_ok source destination
            else True))))))"

definition Soldier_is_legal :: "game \<Rightarrow> nat \<Rightarrow> string \<Rightarrow> string \<Rightarrow> error + bool" where
  "Soldier_is_legal g self source destination =
     bindE (decode_location source) (\<lambda>(from_row, from_col).
     bindE (decode_location destination) (\<lambda>(to_row, to_col).
     bindE (board_get (board g) to_row to_col) (\<lambda>destination_piece.
     Inr (if friendly g self destination_piece then False
          else if from_row = to_row \<and> \<bar>to_col - from_col\<bar> \<noteq> 1 then False
          else if from_col = to_col \<and>
                  (if get_color (piece_owner (pieces g self)) = ''blue''
                   then to_row - from_row \<noteq> - 1 else to_row - from_row \<noteq> 1) then False
          else if from_row \<noteq> to_row \<and> from_col \<noteq> to_col then
            (if source = ''d3'' \<or> source = ''f3'' then destination = ''e2''
             else if source = ''e2'' then destination = ''d1'' \<or> destination = ''f1''
             else if source = ''d8'' \<or> source = ''f8'' then destination = ''e9''
             else if source = ''e9'' then destination = ''d10'' \<or> destination = ''f10''
             else False)
          else True))))"

text \<open>Dynamic dispatch on the class of the piece.\<close>

definition piece_is_legal :: "game \<Rightarrow> nat \<Rightarrow> string \<Rightarrow> string \<Rightarrow> error + bool" where
  "piece_is_legal g self source destination =
     (case piece_kind (pieces g self) of
        General \<Rightarrow> General_is_legal g self source destination
      | Guard \<Rightarrow> Guard_is_legal g self source destination
      | Elephant \<Rightarrow> Elephant_is_legal g self source destination
      | Horse \<Rightarrow> Horse_is_legal g self source destination
      | Chariot \<Rightarrow> Chariot_is_legal g self source destination
      | Cannon \<Rightarrow> Cannon_is_legal g self source destination
      | Soldier \<Rightarrow> Soldier_is_legal g self source destination)"

text \<open>
  General, Guard and Soldier return their \<open>_move_path\<close> attribute, a list that is
  created empty and never appended to.
\<close>

definition piece_move_path :: "game \<Rightarrow> nat \<Rightarrow> string \<Rightarrow> string \<Rightarrow> error + string list" where
  "piece_move_path g self source destination =
     (case piece_kind (pieces g self) of
        General \<Rightarrow> Inr []
      | Guard \<Rightarrow> Inr []
      | Elephant \<Rightarrow> Elephant_move_path source destination
      | Horse \<Rightarrow> Horse_move_path source destination
      | Chariot \<Rightarrow> Chariot_move_path source destination
      | Cannon \<Rightarrow> Cannon_move_path source destination
      | Soldier \<Rightarrow> Inr [])"


subsection \<open>Check, composite legality, checkmate\<close>

text \<open>
  A \<open>for\<close> loop over a cart is a recursion over the cart as it is when the loop starts.
  (The body of such a loop only ever removes and re-appends a captured piece, which belongs
  to the other player's cart, because every movement rule rejects a friendly destination.)
\<close>

fun any_attacks :: "game \<Rightarrow> string \<Rightarrow> nat list \<Rightarrow> error + bool" where
  "any_attacks g general_location [] = Inr False"
| "any_attacks g general_location (p # ps) =
     bindE (piece_is_legal g p (piece_location (pieces g p)) general_location) (\<lambda>hit.
       if hit then Inr True else any_attacks g general_location ps)"

definition is_in_check :: "game \<Rightarrow> color \<Rightarrow> error + bool" where
  "is_in_check g player =
     (let opponent = (if get_color player = ''blue'' then Red else Blue) in
      case get_general g player of
        None \<Rightarrow> Inl AttributeError
      | Some general \<Rightarrow>
          any_attacks g (piece_location (pieces g general)) (get_cart g opponent))"

text \<open>
  The protocol of the docstrings of prep\_temp\_move and undo\_temp\_move: save the piece on
  the destination, move, evaluate, put the pieces back. The logic in between only reads
  the game (in the program it is always is\_in\_check).
\<close>

definition temp_move :: "string \<Rightarrow> string \<Rightarrow> (game \<Rightarrow> error + 'a) \<Rightarrow> game \<Rightarrow> (error + 'a) \<times> game" where
  "temp_move source destination logic =
     bindS (prep_temp_move destination) (\<lambda>_.
     bindS (move_piece source destination) (\<lambda>_.
     bindS (reads logic) (\<lambda>result.
     bindS (undo_temp_move source destination) (\<lambda>_.
     pureS (Inr result)))))"

definition Board_is_legal :: "string \<Rightarrow> string \<Rightarrow> game \<Rightarrow> (error + bool) \<times> game" where
  "Board_is_legal source destination =
     bindS (pureS (decode_location source)) (\<lambda>(source_row, source_column).
     bindS (reads (\<lambda>g. board_get (board g) source_row source_column)) (\<lambda>source_piece.
     case source_piece of
       None \<Rightarrow> pureS (Inl AttributeError)
     | Some sp \<Rightarrow>
         bindS (gets (\<lambda>g. piece_owner (pieces g sp))) (\<lambda>source_player.
         bindS (reads (\<lambda>g. piece_is_legal g sp source destination)) (\<lambda>ok.
         if ok then
           bindS (temp_move source destination (\<lambda>g. is_in_check g source_player)) (\<lambda>in_check.
           pureS (Inr (\<not> in_check)))
         else pureS (Inr False)))))"

text \<open>The list of attackers built at the start of is\_in\_checkmate.\<close>

fun attacker_list :: "string \<Rightarrow> nat list \<Rightarrow> game \<Rightarrow> (error + nat list) \<times> game" where
  "attacker_list gen_loc [] = pureS (Inr [])"
| "attacker_list gen_loc (p # ps) =
     bindS (gets (\<lambda>g. piece_location (pieces g p))) (\<lambda>loc.
     bindS (Board_is_legal loc gen_loc) (\<lambda>threat.
     bindS (attacker_list gen_loc ps) (\<lambda>rest.
     pureS (Inr (if threat then p # rest else rest)))))"

text \<open>
  \<open>for piece in player.get_cart(): if self.is_legal(piece.get_location(), target): return False\<close>,
  where the target (evaluated in each round) is the location of an attacker or a square.
  The result True stands for the early \<open>return False\<close> of is\_in\_checkmate.
\<close>

fun any_can_reach :: "(game \<Rightarrow> string) \<Rightarrow> nat list \<Rightarrow> game \<Rightarrow> (error + bool) \<times> game" where
  "any_can_reach target [] = pureS (Inr False)"
| "any_can_reach target (p # ps) =
     bindS (gets (\<lambda>g. piece_location (pieces g p))) (\<lambda>loc.
     bindS (gets target) (\<lambda>t.
     bindS (Board_is_legal loc t) (\<lambda>legal.
     if legal then pureS (Inr True) else any_can_reach target ps)))"

fun any_can_block :: "color \<Rightarrow> string list \<Rightarrow> game \<Rightarrow> (error + bool) \<times> game" where
  "any_can_block player [] = pureS (Inr False)"
| "any_can_block player (square # squares) =
     bindS (gets (\<lambda>g. get_cart g player)) (\<lambda>cart.
     bindS (any_can_reach (\<lambda>_. square) cart) (\<lambda>blocked.
     if blocked then pureS (Inr True) else any_can_block player squares))"

fun attackers_resolved :: "color \<Rightarrow> string \<Rightarrow> nat list \<Rightarrow> game \<Rightarrow> (error + bool) \<times> game" where
  "attackers_resolved player gen_loc [] = pureS (Inr False)"
| "attackers_resolved player gen_loc (attacker # attackers) =
     bindS (gets (\<lambda>g. get_cart g player)) (\<lambda>cart.
     bindS (any_can_reach (\<lambda>g. piece_location (pieces g attacker)) cart) (\<lambda>captured.
     if captured then pureS (Inr True)
     else
       bindS (reads (\<lambda>g. piece_move_path g attacker (piece_location (pieces g attacker)) gen_loc))
         (\<lambda>path.
       bindS (any_can_block player path) (\<lambda>blocked.
       if blocked then pureS (Inr True)
       else attackers_resolved player gen_loc attackers))))"

text \<open>The last loop of is\_in\_checkmate: the General tries every square of its palace.\<close>

fun general_escapes :: "color \<Rightarrow> nat \<Rightarrow> string \<Rightarrow> string list \<Rightarrow> game \<Rightarrow> (error + bool) \<times> game" where
  "general_escapes player general gen_loc [] = pureS (Inr False)"
| "general_escapes player general gen_loc (square # squares) =
     bindS (reads (\<lambda>g. piece_is_legal g general gen_loc square)) (\<lambda>ok.
     if ok then
       bindS (temp_move gen_loc square (\<lambda>g. is_in_check g player)) (\<lambda>in_check.
       if \<not> in_check then pureS (Inr True)
       else general_escapes player general gen_loc squares)
     else general_escapes player general gen_loc squares)"

definition is_in_checkmate :: "color \<Rightarrow> game \<Rightarrow> (error + bool) \<times> game" where
  "is_in_checkmate player =
     bindS (reads (\<lambda>g. is_in_check g player)) (\<lambda>in_check.
     if \<not> in_check then pureS (Inr False)
     else
       let opponent = (if get_color player = ''blue'' then Red else Blue);
           palace_squares =
             (if get_color player = ''blue''
              then [''d8'', ''d9'', ''d10'', ''e8'', ''e9'', ''e10'', ''f8'', ''f9'', ''f10'']
              else [''d1'', ''d2'', ''d3'', ''e1'', ''e2'', ''e3'', ''f1'', ''f2'', ''f3''])
       in
       bindS (gets (\<lambda>g. get_general g player)) (\<lambda>general_opt.
       case general_opt of
         None \<Rightarrow> pureS (Inl AttributeError)
       | Some general \<Rightarrow>
           bindS (gets (\<lambda>g. piece_location (pieces g general))) (\<lambda>gen_loc.
           bindS (gets (\<lambda>g. get_cart g opponent)) (\<lambda>opponent_cart.
           bindS (attacker_list gen_loc opponent_cart) (\<lambda>attackers.
           bindS (attackers_resolved player gen_loc attackers) (\<lambda>resolved.
           if resolved then pureS (Inr False)
           else
             bindS (general_escapes player general gen_loc palace_squares) (\<lambda>escaped.
             pureS (Inr (\<not> escaped)))))))))"

subsection \<open>JanggiGame\<close>

definition toggle_players :: "game \<Rightarrow> (error + unit) \<times> game" where
  "toggle_players =
     modify (\<lambda>g. if current_player g = Blue then g\<lparr>current_player := Red\<rparr>
                 else g\<lparr>current_player := Blue\<rparr>)"

definition game_is_in_check :: "game \<Rightarrow> string \<Rightarrow> error + bool" where
  "game_is_in_check g color_name =
     (if color_name = ''blue'' then is_in_check g Blue else is_in_check g Red)"

definition make_move :: "string \<Rightarrow> string \<Rightarrow> game \<Rightarrow> (error + bool) \<times> game" where
  "make_move source destination =
     bindS (gets game_state) (\<lambda>state.
     if state \<noteq> ''UNFINISHED'' then pureS (Inr False)
     else if source = destination then
       bindS (reads (\<lambda>g. game_is_in_check g (get_color (current_player g)))) (\<lambda>in_check.
       if in_check then pureS (Inr False)
       else bindS toggle_players (\<lambda>_. pureS (Inr True)))
     else
       bindS (reads (\<lambda>g. get_occupant g source)) (\<lambda>occupant.
       case occupant of
         None \<Rightarrow> pureS (Inr False)
       | Some sp \<Rightarrow>
           bindS (gets (\<lambda>g. piece_owner (pieces g sp) \<noteq> current_player g)) (\<lambda>wrong_player.
           if wrong_player then pureS (Inr False)
           else
             bindS (Board_is_legal source destination) (\<lambda>legal.
             if legal then
               bindS (move_piece source destination) (\<lambda>_.
               bindS toggle_players (\<lambda>_.
               bindS (gets current_player) (\<lambda>player.
               bindS (is_in_checkmate player) (\<lambda>mate.
               bindS (if mate then
                        modify (\<lambda>g. g\<lparr>game_state :=
                                  (if player = Blue then ''RED_WON'' else ''BLUE_WON'')\<rparr>)
                      else pureS (Inr ())) (\<lambda>_.
               pureS (Inr True))))))
             else pureS (Inr False)))))"

text \<open>
  JanggiGame.\_\_init\_\_ and Board.initialize\_board: the pieces are numbered in the order
  of their construction (row 1 first), and the carts are filled in board order.
\<close>

definition mk :: "kind \<Rightarrow> string \<Rightarrow> color \<Rightarrow> piece" where
  "mk k l c = \<lparr>piece_kind = k, piece_location = l, piece_owner = c\<rparr>"

definition initial_pieces :: "piece list" where
  "initial_pieces =
     [mk Chariot ''a1'' Red, mk Elephant ''b1'' Red, mk Horse ''c1'' Red, mk Guard ''d1'' Red,
      mk Guard ''f1'' Red, mk Elephant ''g1'' Red, mk Horse ''h1'' Red, mk Chariot ''i1'' Red,
      mk General ''e2'' Red,
      mk Cannon ''b3'' Red, mk Cannon ''h3'' Red,
      mk Soldier ''a4'' Red, mk Soldier ''c4'' Red, mk Soldier ''e4'' Red,
      mk Soldier ''g4'' Red, mk Soldier ''i4'' Red,
      mk Soldier ''a7'' Blue, mk Soldier ''c7'' Blue, mk Soldier ''e7'' Blue,
      mk Soldier ''g7'' Blue, mk Soldier ''i7'' Blue,
      mk Cannon ''b8'' Blue, mk Cannon ''h8'' Blue,
      mk General ''e9'' Blue,
      mk Chariot ''a10'' Blue, mk Elephant ''b10'' Blue, mk Horse ''c10'' Blue,
      mk Guard ''d10'' Blue, mk Guard ''f10'' Blue, mk Elephant ''g10'' Blue,
      mk Horse ''h10'' Blue, mk Chariot ''i10'' Blue]"

definition initial_board :: "nat option list list" where
  "initial_board =
     [[Some 0, Some 1, Some 2, Some 3, None, Some 4, Some 5, Some 6, Some 7],
      [None, None, None, None, Some 8, None, None, None, None],
      [None, Some 9, None, None, None, None, None, Some 10, None],
      [Some 11, None, Some 12, None, Some 13, None, Some 14, None, Some 15],
      [None, None, None, None, None, None, None, None, None],
      [None, None, None, None, None, None, None, None, None],
      [Some 16, None, Some 17, None, Some 18, None, Some 19, None, Some 20],
      [None, Some 21, None, None, None, None, None, Some 22, None],
      [None, None, None, None, Some 23, None, None, None, None],
      [Some 24, Some 25, Some 26, Some 27, None, Some 28, Some 29, Some 30, Some 31]]"

definition initial_game :: game where
  "initial_game =
     \<lparr>board = initial_board,
      pieces = (\<lambda>p. initial_pieces ! p),
      blue_cart = [16, 17, 18, 19, 20, 21, 22, 23, 24, 25, 26, 27, 28, 29, 30, 31],
      red_cart = [0, 1, 2, 3, 4, 5, 6, 7, 8, 9, 10, 11, 12, 13, 14, 15],
      temp = None,
      game_state = ''UNFINISHED'',
      current_player = Blue\<rparr>"


subsection \<open>Notions used by the properties\<close>

text \<open>The board has ten rows of nine cells, as initialize\_board builds it.\<close>

definition wf_board :: "'a list list \<Rightarrow> bool" where
  "wf_board b = (length b = 10 \<and> list_all (\<lambda>r. length r = 9) b)"

text \<open>The game in the middle of a temporary move, when the logic in between runs.\<close>

definition during_temp_move :: "string \<Rightarrow> string \<Rightarrow> game \<Rightarrow> game" where
  "during_temp_move source destination g =
     snd (bindS (prep_temp_move destination) (\<lambda>_. move_piece source destination) g)"

text \<open>What move\_piece does to the carts: the piece on the destination leaves its owner's cart.\<close>

definition capture :: "nat option \<Rightarrow> game \<Rightarrow> game" where
  "capture occ g =
     (case occ of None \<Rightarrow> g | Some q \<Rightarrow> remove_piece (piece_owner (pieces g q)) q g)"

text \<open>What undo\_temp\_move does to the carts: the saved piece is appended to its owner's cart.\<close>

definition restore :: "nat option \<Rightarrow> game \<Rightarrow> game" where
  "restore occ g =
     (case occ of None \<Rightarrow> g | Some q \<Rightarrow> add_piece (piece_owner (pieces g q)) q g)"

text \<open>The two round trips of the codec, as tests that can be run on every coordinate.\<close>

definition round_trip_at :: "int \<Rightarrow> int \<Rightarrow> bool" where
  "round_trip_at row column =
     (case encode_location row column of
        Inl e \<Rightarrow> False
      | Inr t \<Rightarrow> well_formed t \<and> decode_location t = Inr (row, column))"

definition round_trip_text :: "string \<Rightarrow> bool" where
  "round_trip_text t =
     (case decode_location t of
        Inl e \<Rightarrow> False
      | Inr (row, column) \<Rightarrow> valid_index row column \<and> encode_location row column = Inr t)"

text \<open>
  The palace entry diagonals of the Soldier, as (source, destination): from the corners
  d3, f3 to the centre e2 and from e2 to the corners d1, f1 of the red palace; from d8, f8
  to the centre e9 and from e9 to d10, f10 of the blue palace.
\<close>

definition palace_entry_diagonals :: "(string \<times> string) list" where
  "palace_entry_diagonals =
     [(''d3'', ''e2''), (''f3'', ''e2''), (''e2'', ''d1''), (''e2'', ''f1''),
      (''d8'', ''e9''), (''f8'', ''e9''), (''e9'', ''d10''), (''e9'', ''f10'')]"

text \<open>
  A position for the Soldier: the red General on e1, the blue General on e9, a red Soldier
  on d3 and a blue Soldier on f3, both at the entry of the red palace.
\<close>

definition soldier_position :: game where
  "soldier_position =
     \<lparr>board =
        [[None, None, None, None, Some 0, None, None, None, None],
         [None, None, None, None, None, None, None, None, None],
         [None, None, None, Some 1, None, Some 3, None, None, None],
         [None, None, None, None, None, None, None, None, None],
         [None, None, None, None, None, None, None, None, None],
         [None, None, None, None, None, None, None, None, None],
         [None, None, None, None, None, None, None, None, None],
         [None, None, None, None, None, None, None, None, None],
         [None, None, None, None, Some 2, None, None, None, None],
         [None, None, None, None, None, None, None, None, None]],
      pieces = (\<lambda>p. [mk General ''e1'' Red, mk Soldier ''d3'' Red,
                       mk General ''e9'' Blue, mk Soldier ''f3'' Blue] ! p),
      blue_cart = [2, 3],
      red_cart = [0, 1],
      temp = None,
      game_state = ''UNFINISHED'',
      current_player = Red\<rparr>"

text \<open>A method keeps the turn when it leaves the current player as it was, whatever it returns.\<close>

definition keeps_turn :: "(game \<Rightarrow> (error + 'a) \<times> game) \<Rightarrow> bool" where
  "keeps_turn m = (\<forall>g. current_player (snd (m g)) = current_player g)"

text \<open>
  The attackers as the specification words them: the opposing pieces whose movement rule
  (the one that ignores self-check) reaches the square of the defending General.
\<close>

definition pure_attackers :: "game \<Rightarrow> string \<Rightarrow> nat list \<Rightarrow> nat list" where
  "pure_attackers g gen_loc cart =
     filter (\<lambda>p. piece_is_legal g p (piece_location (pieces g p)) gen_loc = Inr True) cart"

text \<open>
  A position on the d file, blue to move: red General d2, red Cannon d5, blue Chariot d7,
  blue General d10, blue Guards e9 and e10. The Cannon gives check over the Chariot.
\<close>

definition pinned_cannon_position :: game where
  "pinned_cannon_position =
     \<lparr>board =
        [[None, None, None, None, None, None, None, None, None],
         [None, None, None, Some 0, None, None, None, None, None],
         [None, None, None, None, None, None, None, None, None],
         [None, None, None, None, None, None, None, None, None],
         [None, None, None, Some 1, None, None, None, None, None],
         [None, None, None, None, None, None, None, None, None],
         [None, None, None, Some 2, None, None, None, None, None],
         [None, None, None, None, None, None, None, None, None],
         [None, None, None, None, Some 4, None, None, None, None],
         [None, None, None, Some 3, Some 5, None, None, None, None]],
      pieces = (\<lambda>p. [mk General ''d2'' Red, mk Cannon ''d5'' Red, mk Chariot ''d7'' Blue,
                       mk General ''d10'' Blue, mk Guard ''e9'' Blue, mk Guard ''e10'' Blue] ! p),
      blue_cart = [2, 3, 4, 5],
      red_cart = [0, 1],
      temp = None,
      game_state = ''UNFINISHED'',
      current_player = Blue\<rparr>"

text \<open>The name of a square of the board, and the piece standing on it.\<close>

definition square_name :: "int \<times> int \<Rightarrow> string" where
  "square_name sq = (case encode_location (fst sq) (snd sq) of Inr s \<Rightarrow> s | Inl e \<Rightarrow> [])"

definition occupant_at :: "game \<Rightarrow> int \<times> int \<Rightarrow> nat option" where
  "occupant_at g sq = board g ! nat (fst sq) ! nat (snd sq)"

text \<open>
  The squares strictly between two squares of one row or of one column, in the order in
  which a sliding piece passes them; no squares when the two are on no common line.
\<close>

definition line_squares :: "int \<times> int \<Rightarrow> int \<times> int \<Rightarrow> (int \<times> int) list" where
  "line_squares s d =
     (if fst s = fst d then
        map (\<lambda>c. (fst s, c))
          (if snd d > snd s then [snd s + 1 .. snd d - 1] else rev [snd d + 1 .. snd s - 1])
      else [])
     @ (if snd s = snd d then
        map (\<lambda>r. (r, snd s))
          (if fst d > fst s then [fst s + 1 .. fst d - 1] else rev [fst d + 1 .. fst s - 1])
      else [])"

text \<open>The corner squares and the centres of the two palaces, as (row, column).\<close>

definition red_corner_squares :: "(int \<times> int) list" where
  "red_corner_squares = [(0, 3), (0, 5), (2, 3), (2, 5)]"

definition blue_corner_squares :: "(int \<times> int) list" where
  "blue_corner_squares = [(7, 3), (7, 5), (9, 3), (9, 5)]"

text \<open>The names used by the movement rules denote these squares.\<close>

definition palace_names_agree :: "int \<times> int \<Rightarrow> bool" where
  "palace_names_agree sq =
     ((square_name sq \<in> set palace_corners)
        = (sq \<in> set red_corner_squares \<or> sq \<in> set blue_corner_squares)
      \<and> (square_name sq \<in> set red_palace_corners) = (sq \<in> set red_corner_squares)
      \<and> (square_name sq \<in> set blue_palace_corners) = (sq \<in> set blue_corner_squares)
      \<and> (square_name sq \<in> set palace_centers) = (sq = (1, 4) \<or> sq = (8, 4))
      \<and> (square_name sq = ''e2'') = (sq = (1, 4))
      \<and> (square_name sq = ''e9'') = (sq = (8, 4)))"

text \<open>
  The Cannon's rule as the specification words it. The path of a Cannon slide: the squares
  strictly between source and destination on a row or a column; the centre of the palace
  between two opposite corners of one palace; nothing between a corner and the centre.
  There is no path to the source square itself or off these lines.
\<close>

definition cannon_path :: "int \<times> int \<Rightarrow> int \<times> int \<Rightarrow> (int \<times> int) list option" where
  "cannon_path s d =
     (if s = d then None
      else if fst s = fst d \<or> snd s = snd d then Some (line_squares s d)
      else if s \<in> set red_corner_squares \<and> d \<in> set red_corner_squares then Some [(1, 4)]
      else if s \<in> set blue_corner_squares \<and> d \<in> set blue_corner_squares then Some [(8, 4)]
      else if (s \<in> set red_corner_squares \<and> d = (1, 4))
            \<or> (s = (1, 4) \<and> d \<in> set red_corner_squares)
            \<or> (s \<in> set blue_corner_squares \<and> d = (8, 4))
            \<or> (s = (8, 4) \<and> d \<in> set blue_corner_squares) then Some []
      else None)"

definition is_cannon :: "game \<Rightarrow> nat option \<Rightarrow> bool" where
  "is_cannon g occ = (case occ of None \<Rightarrow> False | Some q \<Rightarrow> piece_kind (pieces g q) = Cannon)"

text \<open>
  Exactly one square of the path is occupied, no Cannon stands on the path, and the
  destination holds neither a friendly piece nor a Cannon.
\<close>

definition cannon_rule :: "game \<Rightarrow> nat \<Rightarrow> int \<times> int \<Rightarrow> int \<times> int \<Rightarrow> bool" where
  "cannon_rule g self s d =
     (case cannon_path s d of
        None \<Rightarrow> False
      | Some path \<Rightarrow>
          length (filter (\<lambda>sq. occupant_at g sq \<noteq> None) path) = 1
          \<and> \<not> list_ex (\<lambda>sq. is_cannon g (occupant_at g sq)) path
          \<and> \<not> friendly g self (occupant_at g d)
          \<and> \<not> is_cannon g (occupant_at g d))"

text \<open>
  A position for the Cannon: red General e2, red Cannon b3, red Soldier b5, a blue Soldier
  on b7 and one on b8, the blue General on e9 and a blue Cannon on h3.
\<close>

definition cannon_position :: game where
  "cannon_position =
     \<lparr>board =
        [[None, None, None, None, None, None, None, None, None],
         [None, None, None, None, Some 0, None, None, None, None],
         [None, Some 1, None, None, None, None, None, Some 6, None],
         [None, None, None, None, None, None, None, None, None],
         [None, Some 2, None, None, None, None, None, None, None],
         [None, None, None, None, None, None, None, None, None],
         [None, Some 3, None, None, None, None, None, None, None],
         [None, Some 4, None, None, None, None, None, None, None],
         [None, None, None, None, Some 5, None, None, None, None],
         [None, None, None, None, None, None, None, None, None]],
      pieces = (\<lambda>p. [mk General ''e2'' Red, mk Cannon ''b3'' Red, mk Soldier ''b5'' Red,
                       mk Soldier ''b7'' Blue, mk Soldier ''b8'' Blue, mk General ''e9'' Blue,
                       mk Cannon ''h3'' Blue] ! p),
      blue_cart = [3, 4, 5, 6],
      red_cart = [0, 1, 2],
      temp = None,
      game_state = ''UNFINISHED'',
      current_player = Red\<rparr>"

text \<open>The ninety squares of the board.\<close>

definition all_squares :: "(int \<times> int) list" where
  "all_squares = List.product [0..9] [0..8]"

text \<open>
  The General attacked, read off the board: a square holds a General of the player, and a
  piece of the opponent standing on some square reaches the General's square from its own
  square by its movement rule (the rule that ignores self-check).
\<close>

definition attacked_on_board :: "game \<Rightarrow> color \<Rightarrow> bool" where
  "attacked_on_board g player =
     list_ex (\<lambda>gsq.
        case occupant_at g gsq of
          None \<Rightarrow> False
        | Some general \<Rightarrow>
            if piece_kind (pieces g general) = General \<and> piece_owner (pieces g general) = player
            then list_ex (\<lambda>asq.
                   case occupant_at g asq of
                     None \<Rightarrow> False
                   | Some a \<Rightarrow>
                       if piece_owner (pieces g a) = opponent_of player
                       then piece_is_legal g a (square_name asq) (square_name gsq) = Inr True
                       else False) all_squares
            else False) all_squares"

text \<open>
  The records agree with the board: every piece on the board has the name of its square
  as recorded location and is in the cart of its owner; every piece of a cart is owned by
  that player and stands on the board; no cart lists a piece twice, and each cart holds
  exactly one General. The opening position is such a game.
\<close>

definition cart_consistent :: "game \<Rightarrow> color \<Rightarrow> bool" where
  "cart_consistent g c =
     (distinct (get_cart g c)
      \<and> list_all (\<lambda>p. piece_owner (pieces g p) = c
                       \<and> list_ex (\<lambda>sq. occupant_at g sq = Some p) all_squares) (get_cart g c)
      \<and> length (filter (\<lambda>p. piece_kind (pieces g p) = General) (get_cart g c)) = 1)"

definition records_agree :: "game \<Rightarrow> bool" where
  "records_agree g =
     (wf_board (board g)
      \<and> list_all (\<lambda>sq. case occupant_at g sq of
                          None \<Rightarrow> True
                        | Some p \<Rightarrow> piece_location (pieces g p) = square_name sq
                                    \<and> p \<in> set (get_cart g (piece_owner (pieces g p))))
           all_squares
      \<and> cart_consistent g Blue \<and> cart_consistent g Red)"

text \<open>
  A position in which the records agree with the board: the red General on e2, a red
  Soldier on i4, a blue Chariot on d4 and the blue General on e9, blue to move.
\<close>

definition chariot_position :: game where
  "chariot_position =
     \<lparr>board =
        [[None, None, None, None, None, None, None, None, None],
         [None, None, None, None, Some 0, None, None, None, None],
         [None, None, None, None, None, None, None, None, None],
         [None, None, None, Some 2, None, None, None, None, Some 1],
         [None, None, None, None, None, None, None, None, None],
         [None, None, None, None, None, None, None, None, None],
         [None, None, None, None, None, None, None, None, None],
         [None, None, None, None, None, None, None, None, None],
         [None, None, None, None, Some 3, None, None, None, None],
         [None, None, None, None, None, None, None, None, None]],
      pieces = (\<lambda>p. [mk General ''e2'' Red, mk Soldier ''i4'' Red, mk Chariot ''d4'' Blue,
                       mk General ''e9'' Blue] ! p),
      blue_cart = [2, 3],
      red_cart = [0, 1],
      temp = None,
      game_state = ''UNFINISHED'',
      current_player = Blue\<rparr>"

text \<open>
  The game after blue's request to move the Chariot from d4 to the destination written
  d3xx, which decode\_location reads as d3.
\<close>

definition chariot_on_d3 :: game where
  "chariot_on_d3 = snd (make_move ''d4'' ''d3xx'' chariot_position)"

section \<open>Properties\<close>

subsection \<open>Evaluation rules\<close>

lemma bindE_simps [simp]:
  "bindE (Inl e) f = Inl e"
  "bindE (Inr x) f = f x"
  by (simp_all add: bindE_def)

lemma bindS_simps [simp]:
  "bindS (pureS (Inr x)) f g = f x g"
  "bindS (pureS (Inl e)) f g = (Inl e, g)"
  "bindS (gets h) f g = f (h g) g"
  "bindS (modify k) f' g = f' () (k g)"
  "bindS (reads r) f g = (case r g of Inl e \<Rightarrow> (Inl e, g) | Inr x \<Rightarrow> f x g)"
  by (simp_all add: bindS_def pureS_def gets_def modify_def reads_def split: sum.splits)

lemma pureS_apply [simp]: "pureS r g = (r, g)"
  by (simp add: pureS_def)

lemma modify_apply [simp]: "modify k g = (Inr (), k g)"
  by (simp add: modify_def)

subsection \<open>The codec\<close>

lemma decode_cases:
  "decode_location s = Inr rc \<longleftrightarrow>
     (\<exists>c d. (length s \<noteq> 3 \<and> 2 \<le> length s \<and> map_of column_key [s ! 0] = Some c
              \<and> map_of row_key [s ! 1] = Some d \<and> rc = (d, c))
       \<or> (length s = 3 \<and> map_of column_key [s ! 0] = Some c
              \<and> map_of row_key (drop 1 s) = Some d \<and> rc = (d, c)))"
  by (auto simp: decode_location_def bindE_def str_index_def dict_get_def
           split: sum.splits option.splits if_splits)

lemma column_key_range: "map_of column_key k = Some c \<Longrightarrow> 0 \<le> c \<and> c \<le> 8"
  by (auto simp: column_key_def split: if_splits)

lemma row_key_range: "map_of row_key k = Some r \<Longrightarrow> 0 \<le> r \<and> r \<le> 9"
  by (auto simp: row_key_def split: if_splits)

lemma decode_range:
  "decode_location s = Inr (r, c) \<Longrightarrow> 0 \<le> r \<and> r \<le> 9 \<and> 0 \<le> c \<and> c \<le> 8"
  unfolding decode_cases using column_key_range row_key_range by blast

lemma col_some: "(\<exists>c. map_of column_key [x] = Some c) \<longleftrightarrow> x \<in> set ''abcdefghi''"
  by (auto simp: column_key_def)

lemma row_some1: "(\<exists>d. map_of row_key [x] = Some d) \<longleftrightarrow> x \<in> set ''123456789''"
  by (auto simp: row_key_def)

lemma row_some2: "(\<exists>d. map_of row_key [x, y] = Some d) \<longleftrightarrow> [x, y] = ''10''"
  by (auto simp: row_key_def)

subsection \<open>Cells of a well-formed board\<close>

lemma board_get_wf:
  "wf_board b \<Longrightarrow> 0 \<le> r \<Longrightarrow> r \<le> 9 \<Longrightarrow> 0 \<le> c \<Longrightarrow> c \<le> 8 \<Longrightarrow>
     board_get b r c = Inr (b ! nat r ! nat c)"
  by (simp add: board_get_def list_get_def wf_board_def list_all_length)

lemma board_set_wf:
  "wf_board b \<Longrightarrow> 0 \<le> r \<Longrightarrow> r \<le> 9 \<Longrightarrow> 0 \<le> c \<Longrightarrow> c \<le> 8 \<Longrightarrow>
     board_set b r c v = Inr (b[nat r := (b ! nat r)[nat c := v]])"
  by (simp add: board_set_def list_get_def list_set_def wf_board_def list_all_length)

lemma wf_board_update:
  "wf_board b \<Longrightarrow> wf_board (b[i := (b ! i)[j := v]])"
  by (cases "i < length b") (auto simp: wf_board_def list_all_length nth_list_update)

lemma nth_board_update:
  "i < length b \<Longrightarrow> i' < length b \<Longrightarrow> j < length (b ! i) \<Longrightarrow>
     b[i := (b ! i)[j := v]] ! i' ! j' = (if i' = i \<and> j' = j then v else b ! i' ! j')"
  by (auto simp: nth_list_update)

lemma board_eqI:
  assumes "wf_board b" "wf_board b'"
    and "\<And>i j. i < 10 \<Longrightarrow> j < 9 \<Longrightarrow> b ! i ! j = b' ! i ! j"
  shows "b = b'"
proof (rule nth_equalityI)
  show "length b = length b'" using assms by (simp add: wf_board_def)
next
  fix i assume i: "i < length b"
  then have i10: "i < 10" using assms by (simp add: wf_board_def)
  have l: "length (b ! i) = 9" "length (b' ! i) = 9"
    using assms i10 by (auto simp: wf_board_def list_all_length)
  show "b ! i = b' ! i"
    by (rule nth_equalityI) (use l assms(3) i10 in auto)
qed

subsection \<open>Moving a piece and taking the move back\<close>

lemma remove_piece_fields [simp]:
  "board (remove_piece c q g) = board g"
  "pieces (remove_piece c q g) = pieces g"
  "temp (remove_piece c q g) = temp g"
  "game_state (remove_piece c q g) = game_state g"
  "current_player (remove_piece c q g) = current_player g"
  "blue_cart (remove_piece c q g) = (if c = Blue then remove1 q (blue_cart g) else blue_cart g)"
  "red_cart (remove_piece c q g) = (if c = Red then remove1 q (red_cart g) else red_cart g)"
  by (cases c; simp add: remove1_idem)+

lemma add_piece_fields [simp]:
  "board (add_piece c q g) = board g"
  "pieces (add_piece c q g) = pieces g"
  "temp (add_piece c q g) = temp g"
  "game_state (add_piece c q g) = game_state g"
  "current_player (add_piece c q g) = current_player g"
  "blue_cart (add_piece c q g) = (if c = Blue then blue_cart g @ [q] else blue_cart g)"
  "red_cart (add_piece c q g) = (if c = Red then red_cart g @ [q] else red_cart g)"
  by (cases c; simp)+

lemma set_location_fields [simp]:
  "board (set_location p l g) = board g"
  "pieces (set_location p l g) = (pieces g)(p := (pieces g p)\<lparr>piece_location := l\<rparr>)"
  "temp (set_location p l g) = temp g"
  "game_state (set_location p l g) = game_state g"
  "current_player (set_location p l g) = current_player g"
  "blue_cart (set_location p l g) = blue_cart g"
  "red_cart (set_location p l g) = red_cart g"
  by (simp_all add: set_location_def)


declare remove_piece.simps [simp del] add_piece.simps [simp del]

lemma remove_piece_owner:
  "(if piece_owner (pieces g q) = Blue then remove_piece Blue q g else remove_piece Red q g)
     = remove_piece (piece_owner (pieces g q)) q g"
  by (cases "piece_owner (pieces g q)") simp_all

lemma write_cell_wf:
  "wf_board (board g) \<Longrightarrow> 0 \<le> r \<Longrightarrow> r \<le> 9 \<Longrightarrow> 0 \<le> c \<Longrightarrow> c \<le> 8 \<Longrightarrow>
     write_cell r c v g = (Inr (), g\<lparr>board := (board g)[nat r := (board g ! nat r)[nat c := v]]\<rparr>)"
  by (simp add: write_cell_def board_set_wf)

lemma bindS_write_cell:
  "wf_board (board g) \<Longrightarrow> 0 \<le> r \<Longrightarrow> r \<le> 9 \<Longrightarrow> 0 \<le> c \<Longrightarrow> c \<le> 8 \<Longrightarrow>
     bindS (write_cell r c v) f g = f () (g\<lparr>board := (board g)[nat r := (board g ! nat r)[nat c := v]]\<rparr>)"
  by (simp add: bindS_def write_cell_wf)

lemma capture_fields [simp]:
  "board (capture occ g) = board g"
  "pieces (capture occ g) = pieces g"
  "temp (capture occ g) = temp g"
  "game_state (capture occ g) = game_state g"
  "current_player (capture occ g) = current_player g"
  by (cases occ; simp add: capture_def)+

lemma move_piece_fields:
  assumes wf: "wf_board (board g)"
    and ds: "decode_location source = Inr (sr, sc)"
    and dd: "decode_location destination = Inr (dr, dc)"
    and sp: "board g ! nat sr ! nat sc = Some p"
  shows "\<exists>g'. move_piece source destination g = (Inr (), g')
     \<and> board g' = ((board g)[nat dr := (board g ! nat dr)[nat dc := Some p]])
                   [nat sr := ((board g)[nat dr := (board g ! nat dr)[nat dc := Some p]] ! nat sr)[nat sc := None]]
     \<and> pieces g' = (pieces g)(p := (pieces g p)\<lparr>piece_location := destination\<rparr>)
     \<and> temp g' = temp g \<and> game_state g' = game_state g \<and> current_player g' = current_player g
     \<and> blue_cart g' = blue_cart (capture (board g ! nat dr ! nat dc) g)
     \<and> red_cart g' = red_cart (capture (board g ! nat dr ! nat dc) g)"
proof -
  note rs = decode_range[OF ds] decode_range[OF dd]
  have cap: "(case board g ! nat dr ! nat dc of None \<Rightarrow> g
       | Some dp \<Rightarrow> if piece_owner (pieces g dp) = Blue then remove_piece Blue dp g else remove_piece Red dp g)
      = capture (board g ! nat dr ! nat dc) g"
    by (simp add: capture_def remove_piece_owner split: option.splits)
  show ?thesis
    using rs wf sp
    by (simp add: move_piece_def ds dd board_get_wf cap bindS_write_cell write_cell_wf wf_board_update)
qed


lemma restore_fields [simp]:
  "board (restore occ g) = board g"
  "pieces (restore occ g) = pieces g"
  "temp (restore occ g) = temp g"
  "game_state (restore occ g) = game_state g"
  "current_player (restore occ g) = current_player g"
  by (cases occ; simp add: restore_def)+

lemma owner_after_relocation [simp]:
  "piece_owner (((pieces g)(p := (pieces g p)\<lparr>piece_location := l\<rparr>)) q) = piece_owner (pieces g q)"
  "piece_kind (((pieces g)(p := (pieces g p)\<lparr>piece_location := l\<rparr>)) q) = piece_kind (pieces g q)"
  by simp_all

lemma undo_temp_move_fields:
  assumes wf: "wf_board (board g)"
    and ds: "decode_location source = Inr (sr, sc)"
    and dd: "decode_location destination = Inr (dr, dc)"
    and mv: "board g ! nat dr ! nat dc = Some p"
  shows "\<exists>g'. undo_temp_move source destination g = (Inr (), g')
     \<and> board g' = ((board g)[nat sr := (board g ! nat sr)[nat sc := Some p]])
                   [nat dr := ((board g)[nat sr := (board g ! nat sr)[nat sc := Some p]] ! nat dr)[nat dc := temp g]]
     \<and> pieces g' = (pieces g)(p := (pieces g p)\<lparr>piece_location := source\<rparr>)
     \<and> temp g' = None \<and> game_state g' = game_state g \<and> current_player g' = current_player g
     \<and> blue_cart g' = blue_cart (restore (temp g) g)
     \<and> red_cart g' = red_cart (restore (temp g) g)"
proof -
  note rs = decode_range[OF ds] decode_range[OF dd]
  show ?thesis
    using rs wf mv
    by (cases "temp g")
       (simp_all add: undo_temp_move_def ds dd board_get_wf bindS_write_cell write_cell_wf
          wf_board_update restore_def add_piece.simps split: color.splits)
qed

lemma board_round_trip:
  assumes wf: "wf_board b" and s: "i < 10" "j < 9" and d: "i' < 10" "j' < 9"
    and neq: "(i, j) \<noteq> (i', j')" and sp: "b ! i ! j = v"
  shows "(((b[i' := (b ! i')[j' := w]])
            [i := (b[i' := (b ! i')[j' := w]] ! i)[j := None]])
            [i := (((b[i' := (b ! i')[j' := w]])
                 [i := (b[i' := (b ! i')[j' := w]] ! i)[j := None]]) ! i)[j := v]])
            [i' := ((((b[i' := (b ! i')[j' := w]])
            [i := (b[i' := (b ! i')[j' := w]] ! i)[j := None]])
            [i := (((b[i' := (b ! i')[j' := w]])
                 [i := (b[i' := (b ! i')[j' := w]] ! i)[j := None]]) ! i)[j := v]]) ! i')[j' := b ! i' ! j']]
         = b"
proof (rule board_eqI)
  let ?b1 = "b[i' := (b ! i')[j' := w]]"
  let ?b2 = "?b1[i := (?b1 ! i)[j := None]]"
  let ?b3 = "?b2[i := (?b2 ! i)[j := v]]"
  let ?b4 = "?b3[i' := (?b3 ! i')[j' := b ! i' ! j']]"
  have w1: "wf_board ?b1" by (rule wf_board_update[OF wf])
  have w2: "wf_board ?b2" by (rule wf_board_update[OF w1])
  have w3: "wf_board ?b3" by (rule wf_board_update[OF w2])
  show "wf_board ?b4" by (rule wf_board_update[OF w3])
  show "wf_board b" by fact
  fix x y :: nat assume xy: "x < 10" "y < 9"
  have len: "\<And>c. wf_board c \<Longrightarrow> length c = 10 \<and> length (c ! i) = 9 \<and> length (c ! i') = 9"
    using s d by (simp add: wf_board_def list_all_length)
  show "?b4 ! x ! y = b ! x ! y"
    using xy s d neq sp len[OF wf] len[OF w1] len[OF w2] len[OF w3]
    by (simp add: nth_board_update)
qed


lemma temp_move_fields:
  assumes wf: "wf_board (board g)"
    and ds: "decode_location source = Inr (sr, sc)"
    and dd: "decode_location destination = Inr (dr, dc)"
    and sp: "board g ! nat sr ! nat sc = Some p"
    and neq: "(sr, sc) \<noteq> (dr, dc)"
    and lg: "logic (during_temp_move source destination g) = Inr r"
  shows "\<exists>g'. temp_move source destination logic g = (Inr r, g')
     \<and> board g' = board g
     \<and> pieces g' = (pieces g)(p := (pieces g p)\<lparr>piece_location := source\<rparr>)
     \<and> temp g' = None \<and> game_state g' = game_state g \<and> current_player g' = current_player g"
proof -
  note rs = decode_range[OF ds] decode_range[OF dd]
  let ?occ = "board g ! nat dr ! nat dc"
  let ?g0 = "g\<lparr>temp := ?occ\<rparr>"
  have prep: "prep_temp_move destination g = (Inr (), ?g0)"
    using rs wf by (simp add: prep_temp_move_def dd board_get_wf)
  have wf0: "wf_board (board ?g0)" and sp0: "board ?g0 ! nat sr ! nat sc = Some p"
    using wf sp by simp_all
  from move_piece_fields[OF wf0 ds dd sp0]
  obtain g1 where mv: "move_piece source destination ?g0 = (Inr (), g1)"
    and b1: "board g1 = ((board g)[nat dr := (board g ! nat dr)[nat dc := Some p]])
                   [nat sr := ((board g)[nat dr := (board g ! nat dr)[nat dc := Some p]] ! nat sr)[nat sc := None]]"
    and p1: "pieces g1 = (pieces g)(p := (pieces g p)\<lparr>piece_location := destination\<rparr>)"
    and t1: "temp g1 = ?occ" and s1: "game_state g1 = game_state g"
    and c1: "current_player g1 = current_player g"
    by auto
  have during: "during_temp_move source destination g = g1"
    by (simp add: during_temp_move_def bindS_def prep mv)
  have wf1: "wf_board (board g1)"
    unfolding b1 by (intro wf_board_update wf)
  have nn: "(nat sr, nat sc) \<noteq> (nat dr, nat dc)"
    using neq rs by auto
  have len: "length (board g) = 10" "length (board g ! nat dr) = 9" "length (board g ! nat sr) = 9"
    using wf rs by (auto simp add: wf_board_def list_all_length)
  have at_d: "board g1 ! nat dr ! nat dc = Some p"
    unfolding b1 using nn rs len by (auto simp add: nth_list_update)
  from undo_temp_move_fields[OF wf1 ds dd at_d]
  obtain g2 where un: "undo_temp_move source destination g1 = (Inr (), g2)"
    and b2: "board g2 = ((board g1)[nat sr := (board g1 ! nat sr)[nat sc := Some p]])
                   [nat dr := ((board g1)[nat sr := (board g1 ! nat sr)[nat sc := Some p]] ! nat dr)[nat dc := temp g1]]"
    and p2: "pieces g2 = (pieces g1)(p := (pieces g1 p)\<lparr>piece_location := source\<rparr>)"
    and t2: "temp g2 = None" and s2: "game_state g2 = game_state g1"
    and c2: "current_player g2 = current_player g1"
    by auto
  have run: "temp_move source destination logic g = (Inr r, g2)"
    using lg by (simp add: temp_move_def bindS_def prep mv un during reads_def)
  have board: "board g2 = board g"
    unfolding b2 t1 unfolding b1
    by (rule board_round_trip[OF wf _ _ _ _ nn sp]) (use rs in auto)
  have "pieces g2 = (pieces g)(p := (pieces g p)\<lparr>piece_location := source\<rparr>)"
    by (simp add: p2 p1)
  then show ?thesis
    using run board t2 s2 s1 c2 c1 by simp
qed

subsection \<open>Round trips of the codec\<close>

lemma round_trip_all: "list_all (\<lambda>row. list_all (round_trip_at row) [0..8]) [0..9]"
  by code_simp

lemma decode_encode:
  assumes "valid_index row column"
  shows "\<exists>t. encode_location row column = Inr t \<and> well_formed t
            \<and> decode_location t = Inr (row, column)"
proof -
  have "row \<in> set [0..9]" "column \<in> set [0..8]"
    using assms by (auto simp: valid_index_def)
  then have "round_trip_at row column"
    using round_trip_all by (simp add: list_all_iff)
  then show ?thesis
    by (auto simp: round_trip_at_def split: sum.splits)
qed

lemma round_trip_text_all:
  "list_all (\<lambda>c. list_all (\<lambda>ds. round_trip_text (c # ds)) (''10'' # map (\<lambda>d. [d]) ''123456789''))
     ''abcdefghi''"
  by code_simp

lemma encode_decode:
  assumes "well_formed t"
  shows "\<exists>row column. decode_location t = Inr (row, column) \<and> valid_index row column
            \<and> encode_location row column = Inr t"
proof -
  from assms obtain c ds where t: "t = c # ds" and c: "c \<in> set ''abcdefghi''"
    and ds: "ds \<in> set (map (\<lambda>d. [d]) ''123456789'') \<or> ds = ''10''"
    by (auto simp: well_formed_def split: list.splits)
  from ds have ds': "ds \<in> set (''10'' # map (\<lambda>d. [d]) ''123456789'')"
    by (metis list.set_intros(1,2))
  from round_trip_text_all c ds' have "round_trip_text (c # ds)"
    unfolding list_all_iff by blast
  then show ?thesis unfolding t
    by (auto simp: round_trip_text_def split: sum.splits)
qed

subsection \<open>Squares of the palaces\<close>

lemma decode_literals [simp]:
  "decode_location ''d1'' = Inr (0, 3)" "decode_location ''f1'' = Inr (0, 5)"
  "decode_location ''d3'' = Inr (2, 3)" "decode_location ''f3'' = Inr (2, 5)"
  "decode_location ''e2'' = Inr (1, 4)"
  "decode_location ''d8'' = Inr (7, 3)" "decode_location ''f8'' = Inr (7, 5)"
  "decode_location ''d10'' = Inr (9, 3)" "decode_location ''f10'' = Inr (9, 5)"
  "decode_location ''e9'' = Inr (8, 4)"
  by code_simp+

subsection \<open>Who is to move\<close>

lemma keeps_turn_pureS: "keeps_turn (pureS r)"
  by (simp add: keeps_turn_def)

lemma keeps_turn_gets: "keeps_turn (gets f)"
  by (simp add: keeps_turn_def gets_def)

lemma keeps_turn_reads: "keeps_turn (reads f)"
  by (simp add: keeps_turn_def reads_def)

lemma keeps_turn_modify:
  "(\<And>g. current_player (k g) = current_player g) \<Longrightarrow> keeps_turn (modify k)"
  by (simp add: keeps_turn_def)

lemma keeps_turn_bindS:
  "keeps_turn m \<Longrightarrow> (\<And>x. keeps_turn (f x)) \<Longrightarrow> keeps_turn (bindS m f)"
  unfolding keeps_turn_def bindS_def
  by (auto split: prod.splits sum.splits) (metis snd_conv)+

lemma keeps_turn_write_cell: "keeps_turn (write_cell r c v)"
  by (simp add: keeps_turn_def write_cell_def split: sum.splits)

lemma keeps_turn_case_prod:
  "(\<And>a b. keeps_turn (f a b)) \<Longrightarrow> keeps_turn (case_prod f x)"
  by (cases x) simp

lemma keeps_turn_case_option:
  "keeps_turn a \<Longrightarrow> (\<And>y. keeps_turn (b y)) \<Longrightarrow> keeps_turn (case_option a b x)"
  by (cases x) simp_all

lemma keeps_turn_if:
  "keeps_turn a \<Longrightarrow> keeps_turn b \<Longrightarrow> keeps_turn (if c then a else b)"
  by simp

lemmas keeps_turn_rules =
  keeps_turn_bindS keeps_turn_pureS keeps_turn_gets keeps_turn_reads keeps_turn_modify
  keeps_turn_write_cell keeps_turn_case_prod keeps_turn_case_option keeps_turn_if

lemma keeps_turn_prep_temp_move: "keeps_turn (prep_temp_move d)"
  unfolding prep_temp_move_def by (intro keeps_turn_rules) simp

lemma keeps_turn_move_piece: "keeps_turn (move_piece s d)"
  unfolding move_piece_def
  by (intro keeps_turn_rules) (simp_all split: option.splits)

lemma keeps_turn_undo_temp_move: "keeps_turn (undo_temp_move s d)"
  unfolding undo_temp_move_def
  by (intro keeps_turn_rules) (simp_all split: option.splits)

lemma keeps_turn_temp_move: "keeps_turn (temp_move s d logic)"
  unfolding temp_move_def
  by (intro keeps_turn_rules keeps_turn_prep_temp_move keeps_turn_move_piece keeps_turn_undo_temp_move)

lemma keeps_turn_Board_is_legal: "keeps_turn (Board_is_legal s d)"
  unfolding Board_is_legal_def
  by (intro keeps_turn_rules keeps_turn_temp_move)

lemma keeps_turn_attacker_list: "keeps_turn (attacker_list gl ps)"
proof (induction ps)
  case Nil
  show ?case unfolding attacker_list.simps by (intro keeps_turn_rules)
next
  case (Cons x xs)
  show ?case unfolding attacker_list.simps by (intro keeps_turn_rules Cons keeps_turn_Board_is_legal)
qed

lemma keeps_turn_any_can_reach: "keeps_turn (any_can_reach target ps)"
proof (induction ps)
  case Nil
  show ?case unfolding any_can_reach.simps by (intro keeps_turn_rules)
next
  case (Cons x xs)
  show ?case unfolding any_can_reach.simps by (intro keeps_turn_rules Cons keeps_turn_Board_is_legal)
qed

lemma keeps_turn_any_can_block: "keeps_turn (any_can_block player sqs)"
proof (induction sqs)
  case Nil
  show ?case unfolding any_can_block.simps by (intro keeps_turn_rules)
next
  case (Cons x xs)
  show ?case unfolding any_can_block.simps by (intro keeps_turn_rules Cons keeps_turn_any_can_reach)
qed

lemma keeps_turn_attackers_resolved: "keeps_turn (attackers_resolved player gl as)"
proof (induction as)
  case Nil
  show ?case unfolding attackers_resolved.simps by (intro keeps_turn_rules)
next
  case (Cons x xs)
  show ?case unfolding attackers_resolved.simps by (intro keeps_turn_rules Cons keeps_turn_any_can_reach keeps_turn_any_can_block)
qed

lemma keeps_turn_general_escapes: "keeps_turn (general_escapes player general gl sqs)"
proof (induction sqs)
  case Nil
  show ?case unfolding general_escapes.simps by (intro keeps_turn_rules)
next
  case (Cons x xs)
  show ?case unfolding general_escapes.simps by (intro keeps_turn_rules Cons keeps_turn_temp_move)
qed

lemma keeps_turn_is_in_checkmate: "keeps_turn (is_in_checkmate player)"
  unfolding is_in_checkmate_def Let_def
  by (intro keeps_turn_rules keeps_turn_attacker_list keeps_turn_attackers_resolved
        keeps_turn_general_escapes)

lemma keeps_turnD: "keeps_turn m \<Longrightarrow> m g = (r, g') \<Longrightarrow> current_player g' = current_player g"
  unfolding keeps_turn_def by (metis snd_conv)


lemma toggle_players_result:
  "toggle_players g = (Inr (), g\<lparr>current_player := opponent_of (current_player g)\<rparr>)"
  by (cases "current_player g") (simp_all add: toggle_players_def)

lemma make_move_committed_turn:
  assumes "bindS (move_piece source destination) (\<lambda>_.
               bindS toggle_players (\<lambda>_.
               bindS (gets current_player) (\<lambda>player.
               bindS (is_in_checkmate player) (\<lambda>mate.
               bindS (if mate then
                        modify (\<lambda>g. g\<lparr>game_state :=
                                  (if player = Blue then ''RED_WON'' else ''BLUE_WON'')\<rparr>)
                      else pureS (Inr ())) (\<lambda>_.
               pureS (Inr True)))))) g = (Inr accepted, g')"
  shows "accepted \<and> current_player g' = opponent_of (current_player g)"
proof -
  obtain r1 g1 where m: "move_piece source destination g = (r1, g1)" by fastforce
  have c1: "current_player g1 = current_player g"
    by (rule keeps_turnD[OF keeps_turn_move_piece m])
  let ?g2 = "g1\<lparr>current_player := opponent_of (current_player g1)\<rparr>"
  obtain r3 g3 where k: "is_in_checkmate (current_player ?g2) ?g2 = (r3, g3)" by fastforce
  have c3: "current_player g3 = current_player ?g2"
    by (rule keeps_turnD[OF keeps_turn_is_in_checkmate k])
  show ?thesis
    using assms c1 c3 k
    by (cases r1; cases r3)
       (auto simp add: bindS_def m toggle_players_result gets_def split: if_splits)
qed

subsection \<open>Squares, occupants and paths\<close>

lemma encode_valid:
  assumes "valid_index r c"
  shows "encode_location r c = Inr (square_name (r, c))"
    and "decode_location (square_name (r, c)) = Inr (r, c)"
  using decode_encode[OF assms] by (auto simp: square_name_def)

lemma get_occupant_decoded:
  assumes "wf_board (board g)" "decode_location s = Inr (r, c)"
  shows "get_occupant g s = Inr (occupant_at g (r, c))"
  using assms decode_range[OF assms(2)]
  by (simp add: get_occupant_def board_get_wf occupant_at_def)

lemma get_occupant_square:
  assumes "wf_board (board g)" "valid_index r c"
  shows "get_occupant g (square_name (r, c)) = Inr (occupant_at g (r, c))"
  by (rule get_occupant_decoded[OF assms(1) encode_valid(2)[OF assms(2)]])

lemma mapE_Inr:
  assumes "\<And>x. x \<in> set xs \<Longrightarrow> f x = Inr (h x)"
  shows "mapE f xs = Inr (map h xs)"
  using assms by (induction xs) simp_all

lemma path_clear_squares:
  assumes "wf_board (board g)" "\<And>sq. sq \<in> set sqs \<Longrightarrow> valid_index (fst sq) (snd sq)"
  shows "path_clear g (map square_name sqs) = Inr (list_all (\<lambda>sq. occupant_at g sq = None) sqs)"
  using assms(2)
proof (induction sqs)
  case Nil
  show ?case by simp
next
  case (Cons sq sqs)
  have "get_occupant g (square_name sq) = Inr (occupant_at g sq)"
    using get_occupant_square[OF assms(1), of "fst sq" "snd sq"] Cons.prems by simp
  then show ?case using Cons by simp
qed

lemma count_jumps_squares:
  assumes "wf_board (board g)" "\<And>sq. sq \<in> set sqs \<Longrightarrow> valid_index (fst sq) (snd sq)"
  shows "count_jumps g (map square_name sqs) (n, b) =
           Inr (n + length (filter (\<lambda>sq. occupant_at g sq \<noteq> None) sqs),
                b \<or> list_ex (\<lambda>sq. case occupant_at g sq of None \<Rightarrow> False
                       | Some q \<Rightarrow> piece_kind (pieces g q) = Cannon) sqs)"
  using assms(2)
proof (induction sqs arbitrary: n b)
  case Nil
  show ?case by simp
next
  case (Cons sq sqs)
  have occ: "get_occupant g (square_name sq) = Inr (occupant_at g sq)"
    using get_occupant_square[OF assms(1), of "fst sq" "snd sq"] Cons.prems by simp
  have name: "\<And>k. (get_name k = ''CA'') = (k = Cannon)"
    by (case_tac k) simp_all
  show ?case
    using Cons.IH Cons.prems
    by (cases "occupant_at g sq") (auto simp add: occ name)
qed

lemma line_squares_valid:
  assumes "valid_index r1 c1" "valid_index r2 c2" "sq \<in> set (line_squares (r1, c1) (r2, c2))"
  shows "valid_index (fst sq) (snd sq)"
  using assms by (auto simp: line_squares_def valid_index_def split: if_splits)


lemma decode_valid:
  "decode_location s = Inr (r, c) \<Longrightarrow> valid_index r c"
  using decode_range[of s r c] by (simp add: valid_index_def)

lemma mapE_encode_row:
  "0 \<le> r \<Longrightarrow> r \<le> 9 \<Longrightarrow> \<forall>c \<in> set cs. 0 \<le> c \<and> c \<le> 8 \<Longrightarrow>
     mapE (encode_location r) cs = Inr (map (\<lambda>c. square_name (r, c)) cs)"
  by (intro mapE_Inr encode_valid(1)) (auto simp: valid_index_def)

lemma mapE_encode_column:
  "0 \<le> c \<Longrightarrow> c \<le> 8 \<Longrightarrow> \<forall>r \<in> set rs. 0 \<le> r \<and> r \<le> 9 \<Longrightarrow>
     mapE (\<lambda>row. encode_location row c) rs = Inr (map (\<lambda>r. square_name (r, c)) rs)"
  by (intro mapE_Inr encode_valid(1)) (auto simp: valid_index_def)

lemma Chariot_move_path_decoded:
  assumes ds: "decode_location source = Inr (r1, c1)"
    and dd: "decode_location destination = Inr (r2, c2)"
  shows "Chariot_move_path source destination =
     Inr (if source \<in> set palace_corners \<and> destination \<in> set palace_corners
             \<and> \<bar>r2 - r1\<bar> = \<bar>c2 - c1\<bar>
          then (if source \<in> set blue_palace_corners then [''e9''] else [''e2''])
          else if (source \<in> set palace_corners \<and> destination \<in> set palace_centers)
                \<or> (destination \<in> set palace_corners \<and> source \<in> set palace_centers)
          then []
          else map square_name (line_squares (r1, c1) (r2, c2)))"
proof -
  note b = decode_range[OF ds] decode_range[OF dd]
  have H: "(if r1 = r2 then
              mapE (\<lambda>column. encode_location r1 column)
                (if c2 > c1 then [c1 + 1 .. c2 - 1] else rev [c2 + 1 .. c1 - 1])
            else Inr [])
         = Inr (if r1 = r2 then map (\<lambda>c. square_name (r1, c))
                (if c2 > c1 then [c1 + 1 .. c2 - 1] else rev [c2 + 1 .. c1 - 1]) else [])"
    using b by (simp add: mapE_encode_row)
  have V: "(if c1 = c2 then
              mapE (\<lambda>row. encode_location row c1)
                (if r2 > r1 then [r1 + 1 .. r2 - 1] else rev [r2 + 1 .. r1 - 1])
            else Inr [])
         = Inr (if c1 = c2 then map (\<lambda>r. square_name (r, c1))
                (if r2 > r1 then [r1 + 1 .. r2 - 1] else rev [r2 + 1 .. r1 - 1]) else [])"
    using b by (simp add: mapE_encode_column)
  show ?thesis
    unfolding Chariot_move_path_def ds dd bindE_simps prod.case H V
    by (simp add: line_squares_def comp_def)
qed

subsection \<open>The rule of the Cannon\<close>

lemma palace_names_all:
  "list_all (\<lambda>r. list_all (\<lambda>c. palace_names_agree (r, c)) [0..8]) [0..9]"
  by code_simp

lemma palace_names:
  assumes "valid_index r c"
  shows "palace_names_agree (r, c)"
proof -
  have "r \<in> set [0..9]" "c \<in> set [0..8]"
    using assms by (auto simp: valid_index_def)
  then show ?thesis using palace_names_all by (simp add: list_all_iff)
qed

lemma palace_names_simps:
  assumes "valid_index r c"
  shows "(square_name (r, c) \<in> set palace_corners)
           = ((r, c) \<in> set red_corner_squares \<or> (r, c) \<in> set blue_corner_squares)"
    and "(square_name (r, c) \<in> set red_palace_corners) = ((r, c) \<in> set red_corner_squares)"
    and "(square_name (r, c) \<in> set blue_palace_corners) = ((r, c) \<in> set blue_corner_squares)"
    and "(square_name (r, c) \<in> set palace_centers) = ((r, c) = (1, 4) \<or> (r, c) = (8, 4))"
    and "(square_name (r, c) = ''e2'') = ((r, c) = (1, 4))"
    and "(square_name (r, c) = ''e9'') = ((r, c) = (8, 4))"
  using palace_names[OF assms] unfolding palace_names_agree_def by blast+

lemma get_name_Cannon: "(get_name k = ''CA'') = (k = Cannon)"
  by (cases k) simp_all

lemma centre_names: "square_name (1, 4) = ''e2''" "square_name (8, 4) = ''e9''"
  by code_simp+

lemma red_corner_bounds:
  "(r, c) \<in> set red_corner_squares \<Longrightarrow> 0 \<le> r \<and> r \<le> 2 \<and> 3 \<le> c \<and> c \<le> 5"
  by (auto simp: red_corner_squares_def)

lemma blue_corner_bounds:
  "(r, c) \<in> set blue_corner_squares \<Longrightarrow> 7 \<le> r \<and> r \<le> 9 \<and> 3 \<le> c \<and> c \<le> 5"
  by (auto simp: blue_corner_squares_def)

lemma Cannon_is_legal_rule:
  assumes wf: "wf_board (board g)"
    and v1: "valid_index r1 c1" and v2: "valid_index r2 c2"
    and on: "occupant_at g (r1, c1) = Some self"
  shows "Cannon_is_legal g self (square_name (r1, c1)) (square_name (r2, c2))
           = Inr (cannon_rule g self (r1, c1) (r2, c2))"
proof -
  let ?s = "square_name (r1, c1)" and ?d = "square_name (r2, c2)"
  note ds = encode_valid(2)[OF v1] and dd = encode_valid(2)[OF v2]
  have b: "0 \<le> r1" "r1 \<le> 9" "0 \<le> c1" "c1 \<le> 8" "0 \<le> r2" "r2 \<le> 9" "0 \<le> c2" "c2 \<le> 8"
    using v1 v2 by (auto simp: valid_index_def)
  have occ: "board_get (board g) r2 c2 = Inr (occupant_at g (r2, c2))"
    using wf b by (simp add: board_get_wf occupant_at_def)
  note n1 = palace_names[OF v1, unfolded palace_names_agree_def]
  note n2 = palace_names[OF v2, unfolded palace_names_agree_def]
  have dest_cannon: "(case occupant_at g (r2, c2) of None \<Rightarrow> False
        | Some q \<Rightarrow> get_name (piece_kind (pieces g q)) = ''CA'') = is_cannon g (occupant_at g (r2, c2))"
    by (simp add: is_cannon_def get_name_Cannon split: option.splits)
  have jumps: "\<And>sqs. (\<And>sq. sq \<in> set sqs \<Longrightarrow> valid_index (fst sq) (snd sq)) \<Longrightarrow>
      count_jumps g (map square_name sqs) (0, False) =
        Inr (length (filter (\<lambda>sq. occupant_at g sq \<noteq> None) sqs),
             list_ex (\<lambda>sq. is_cannon g (occupant_at g sq)) sqs)"
    using count_jumps_squares[OF wf, of _ 0 False] by (simp add: is_cannon_def)
  have path: "Cannon_move_path ?s ?d =
     Inr (if ?s \<in> set palace_corners \<and> ?d \<in> set palace_corners
             \<and> \<bar>r2 - r1\<bar> = \<bar>c2 - c1\<bar>
          then (if ?s \<in> set blue_palace_corners then [''e9''] else [''e2''])
          else if (?s \<in> set palace_corners \<and> ?d \<in> set palace_centers)
                \<or> (?d \<in> set palace_corners \<and> ?s \<in> set palace_centers)
          then []
          else map square_name (line_squares (r1, c1) (r2, c2)))"
    unfolding Cannon_move_path_def by (rule Chariot_move_path_decoded[OF ds dd])
  have one_jump: "\<And>n::nat. (n = 0 \<or> n > 1) = (n \<noteq> 1)" by auto
  show ?thesis
  proof (cases "friendly g self (occupant_at g (r2, c2)) \<or> is_cannon g (occupant_at g (r2, c2))")
    case True
    then show ?thesis
      by (auto simp add: Cannon_is_legal_def ds dd occ dest_cannon cannon_rule_def
               split: option.splits)
  next
    case free: False
    have neq: "(r1, c1) \<noteq> (r2, c2)"
      using free on by (auto simp: friendly_def)
    note n = palace_names_simps[OF v1] palace_names_simps[OF v2]
    show ?thesis
    proof (cases "r1 = r2 \<or> c1 = c2")
      case line: True
      have no_mix: "\<not> ((?s \<in> set palace_corners \<and> ?d \<in> set palace_centers)
                \<or> (?d \<in> set palace_corners \<and> ?s \<in> set palace_centers))"
        unfolding n using line
        by (auto simp: red_corner_squares_def blue_corner_squares_def)
      have no_diag: "\<bar>r2 - r1\<bar> \<noteq> \<bar>c2 - c1\<bar>"
        using line neq by auto
      have p: "Cannon_move_path ?s ?d = Inr (map square_name (line_squares (r1, c1) (r2, c2)))"
        unfolding path using no_mix no_diag by (simp only: if_False simp_thms)
      have j: "count_jumps g (map square_name (line_squares (r1, c1) (r2, c2))) (0, False) =
        Inr (length (filter (\<lambda>sq. occupant_at g sq \<noteq> None) (line_squares (r1, c1) (r2, c2))),
             list_ex (\<lambda>sq. is_cannon g (occupant_at g sq)) (line_squares (r1, c1) (r2, c2)))"
        by (rule jumps) (rule line_squares_valid[OF v1 v2])
      have cp: "cannon_path (r1, c1) (r2, c2) = Some (line_squares (r1, c1) (r2, c2))"
        using line neq by (simp add: cannon_path_def)
      have nd: "\<not> (r1 \<noteq> r2 \<and> c1 \<noteq> c2)" using line by blast
      show ?thesis
        unfolding Cannon_is_legal_def ds dd bindE_simps prod.case occ dest_cannon p j cannon_rule_def cp
          option.case one_jump
        using free nd by (simp only: if_False simp_thms) auto
    next
      case off: False
      have ls: "line_squares (r1, c1) (r2, c2) = []"
        using off by (simp add: line_squares_def)
      have diag: "r1 \<noteq> r2 \<and> c1 \<noteq> c2" using off by blast
      have centre: "\<And>sq. sq = (1, 4) \<or> sq = (8, 4) \<Longrightarrow>
          count_jumps g [square_name sq] (0, False) =
            Inr (length (filter (\<lambda>sq. occupant_at g sq \<noteq> None) [sq]),
                 list_ex (\<lambda>sq. is_cannon g (occupant_at g sq)) [sq])"
      proof -
        fix sq :: "int \<times> int" assume "sq = (1, 4) \<or> sq = (8, 4)"
        then have "\<And>x. x \<in> set [sq] \<Longrightarrow> valid_index (fst x) (snd x)"
          by (auto simp: valid_index_def)
        from jumps[of "[sq]", OF this]
        show "count_jumps g [square_name sq] (0, False) =
            Inr (length (filter (\<lambda>sq. occupant_at g sq \<noteq> None) [sq]),
                 list_ex (\<lambda>sq. is_cannon g (occupant_at g sq)) [sq])"
          by (simp only: list.map)
      qed
      have c1: "count_jumps g [square_name (1, 4)] (0, False) =
            Inr (length (filter (\<lambda>sq. occupant_at g sq \<noteq> None) [(1, 4)]),
                 list_ex (\<lambda>sq. is_cannon g (occupant_at g sq)) [(1, 4)])"
        by (rule centre) simp
      have c8: "count_jumps g [square_name (8, 4)] (0, False) =
            Inr (length (filter (\<lambda>sq. occupant_at g sq \<noteq> None) [(8, 4)]),
                 list_ex (\<lambda>sq. is_cannon g (occupant_at g sq)) [(8, 4)])"
        by (rule centre) simp
      consider (red) "(r1, c1) \<in> set red_corner_squares \<and> (r2, c2) \<in> set red_corner_squares"
        | (blue) "(r1, c1) \<in> set blue_corner_squares \<and> (r2, c2) \<in> set blue_corner_squares"
        | (other) "\<not> ((r1, c1) \<in> set red_corner_squares \<and> (r2, c2) \<in> set red_corner_squares)"
                  "\<not> ((r1, c1) \<in> set blue_corner_squares \<and> (r2, c2) \<in> set blue_corner_squares)"
        by blast
      then show ?thesis
      proof cases
        case red
        have p: "Cannon_move_path ?s ?d = Inr [square_name (1, 4)]"
          unfolding path n centre_names using red off
          by (auto simp: red_corner_squares_def blue_corner_squares_def)
        have cp: "cannon_path (r1, c1) (r2, c2) = Some [(1, 4)]"
          using red off neq by (simp add: cannon_path_def)
        have ok: "palace_diagonal_ok ?s ?d"
          unfolding palace_diagonal_ok_def n using red by simp
        show ?thesis
          unfolding Cannon_is_legal_def ds dd bindE_simps prod.case occ dest_cannon p
            c1 cannon_rule_def cp option.case one_jump
          using free diag ok by (simp only: if_False if_True simp_thms) auto
      next
        case blue
        have p: "Cannon_move_path ?s ?d = Inr [square_name (8, 4)]"
          unfolding path n centre_names using blue off
          by (auto simp: red_corner_squares_def blue_corner_squares_def)
        have cp: "cannon_path (r1, c1) (r2, c2) = Some [(8, 4)]"
          using blue off neq by (auto simp add: cannon_path_def red_corner_squares_def blue_corner_squares_def)
        have ok: "palace_diagonal_ok ?s ?d"
          unfolding palace_diagonal_ok_def n using blue by simp
        show ?thesis
          unfolding Cannon_is_legal_def ds dd bindE_simps prod.case occ dest_cannon p
            c8 cannon_rule_def cp option.case one_jump
          using free diag ok by (simp only: if_False if_True simp_thms) auto
      next
        case other
        have nodiag: "\<not> (((r1, c1) \<in> set red_corner_squares \<or> (r1, c1) \<in> set blue_corner_squares)
               \<and> ((r2, c2) \<in> set red_corner_squares \<or> (r2, c2) \<in> set blue_corner_squares)
               \<and> \<bar>r2 - r1\<bar> = \<bar>c2 - c1\<bar>)"
        proof
          assume h: "((r1, c1) \<in> set red_corner_squares \<or> (r1, c1) \<in> set blue_corner_squares)
               \<and> ((r2, c2) \<in> set red_corner_squares \<or> (r2, c2) \<in> set blue_corner_squares)
               \<and> \<bar>r2 - r1\<bar> = \<bar>c2 - c1\<bar>"
          with other consider
              "(r1, c1) \<in> set red_corner_squares" "(r2, c2) \<in> set blue_corner_squares"
            | "(r1, c1) \<in> set blue_corner_squares" "(r2, c2) \<in> set red_corner_squares"
            by blast
          then show False
          proof cases
            case 1
            from red_corner_bounds[OF 1(1)] blue_corner_bounds[OF 1(2)] h show False by linarith
          next
            case 2
            from blue_corner_bounds[OF 2(1)] red_corner_bounds[OF 2(2)] h show False by linarith
          qed
        qed
        have p: "Cannon_move_path ?s ?d = Inr []"
          unfolding path n ls using nodiag by (simp only: if_False list.map if_cancel)
        have cp: "cannon_path (r1, c1) (r2, c2) = None \<or> cannon_path (r1, c1) (r2, c2) = Some []"
          unfolding cannon_path_def using other off neq
          by (simp only: if_False fst_conv snd_conv simp_thms if_cancel split: if_splits)
        have j0: "count_jumps g [] (0, False) = Inr (0, False)" by simp
        show ?thesis
          unfolding Cannon_is_legal_def ds dd bindE_simps prod.case occ dest_cannon p j0 cannon_rule_def
          using free cp by auto
      qed
    qed
  qed
qed

subsection \<open>Movement rules return an answer\<close>

lemma board_get_decoded:
  assumes "wf_board (board g)" "decode_location s = Inr (r, c)"
  shows "board_get (board g) r c = Inr (occupant_at g (r, c))"
  using assms decode_range[OF assms(2)] by (simp add: board_get_wf occupant_at_def)

lemma General_is_legal_total:
  assumes wf: "wf_board (board g)"
    and ds: "decode_location source = Inr (sr, sc)"
    and dd: "decode_location destination = Inr (dr, dc)"
  shows "\<exists>b. General_is_legal g p source destination = Inr b
            \<and> (friendly g p (occupant_at g (dr, dc)) \<longrightarrow> \<not> b)"
  by (simp add: General_is_legal_def ds dd board_get_decoded[OF wf dd]
        encode_valid(1)[OF decode_valid[OF dd]])

lemma Guard_is_legal_total:
  assumes wf: "wf_board (board g)"
    and ds: "decode_location source = Inr (sr, sc)"
    and dd: "decode_location destination = Inr (dr, dc)"
  shows "\<exists>b. Guard_is_legal g p source destination = Inr b
            \<and> (friendly g p (occupant_at g (dr, dc)) \<longrightarrow> \<not> b)"
  by (simp add: Guard_is_legal_def ds dd board_get_decoded[OF wf dd])

lemma Soldier_is_legal_total:
  assumes wf: "wf_board (board g)"
    and ds: "decode_location source = Inr (sr, sc)"
    and dd: "decode_location destination = Inr (dr, dc)"
  shows "\<exists>b. Soldier_is_legal g p source destination = Inr b
            \<and> (friendly g p (occupant_at g (dr, dc)) \<longrightarrow> \<not> b)"
  by (simp add: Soldier_is_legal_def ds dd board_get_decoded[OF wf dd])

lemma path_clear_pair:
  assumes "wf_board (board g)" "valid_index a b" "valid_index c d"
  shows "\<exists>x. path_clear g [square_name (a, b), square_name (c, d)] = Inr x"
proof -
  have "path_clear g (map square_name [(a, b), (c, d)])
          = Inr (list_all (\<lambda>sq. occupant_at g sq = None) [(a, b), (c, d)])"
    by (rule path_clear_squares[OF assms(1)]) (use assms(2,3) in auto)
  then show ?thesis unfolding list.map by blast
qed

lemma path_clear_single:
  assumes "wf_board (board g)" "valid_index a b"
  shows "\<exists>x. path_clear g [square_name (a, b)] = Inr x"
proof -
  have "path_clear g (map square_name [(a, b)])
          = Inr (list_all (\<lambda>sq. occupant_at g sq = None) [(a, b)])"
    by (rule path_clear_squares[OF assms(1)]) (use assms(2) in auto)
  then show ?thesis unfolding list.map by blast
qed

lemma Elephant_path_total:
  assumes wf: "wf_board (board g)"
    and ds: "decode_location source = Inr (sr, sc)"
    and dd: "decode_location destination = Inr (dr, dc)"
    and shape: "(\<bar>dr - sr\<bar> = 3 \<and> \<bar>dc - sc\<bar> = 2) \<or> (\<bar>dr - sr\<bar> = 2 \<and> \<bar>dc - sc\<bar> = 3)"
  shows "\<exists>x. bindE (Elephant_move_path source destination) (path_clear g) = Inr x"
proof -
  note b = decode_range[OF ds] decode_range[OF dd]
  from shape consider
      "dr = sr - 3" "dc = sc + 2" | "dr = sr - 3" "dc = sc - 2"
    | "dr = sr + 3" "dc = sc + 2" | "dr = sr + 3" "dc = sc - 2"
    | "dc = sc + 3" "dr = sr + 2" | "dc = sc + 3" "dr = sr - 2"
    | "dc = sc - 3" "dr = sr + 2" | "dc = sc - 3" "dr = sr - 2"
    by (auto simp: abs_if split: if_splits)
  then show ?thesis
  proof cases
    case 1
    have v: "valid_index (sr - 1) sc" "valid_index (sr - 2) (sc + 1)"
      using b 1 by (auto simp: valid_index_def)
    show ?thesis using path_clear_pair[OF wf v] 1
      by (simp add: Elephant_move_path_def ds dd encode_valid(1)[OF v(1)] encode_valid(1)[OF v(2)])
  next
    case 2
    have v: "valid_index (sr - 1) sc" "valid_index (sr - 2) (sc - 1)"
      using b 2 by (auto simp: valid_index_def)
    show ?thesis using path_clear_pair[OF wf v] 2
      by (simp add: Elephant_move_path_def ds dd encode_valid(1)[OF v(1)] encode_valid(1)[OF v(2)])
  next
    case 3
    have v: "valid_index (sr + 1) sc" "valid_index (sr + 2) (sc + 1)"
      using b 3 by (auto simp: valid_index_def)
    show ?thesis using path_clear_pair[OF wf v] 3
      by (simp add: Elephant_move_path_def ds dd encode_valid(1)[OF v(1)] encode_valid(1)[OF v(2)])
  next
    case 4
    have v: "valid_index (sr + 1) sc" "valid_index (sr + 2) (sc - 1)"
      using b 4 by (auto simp: valid_index_def)
    show ?thesis using path_clear_pair[OF wf v] 4
      by (simp add: Elephant_move_path_def ds dd encode_valid(1)[OF v(1)] encode_valid(1)[OF v(2)])
  next
    case 5
    have v: "valid_index sr (sc + 1)" "valid_index (sr + 1) (sc + 2)"
      using b 5 by (auto simp: valid_index_def)
    show ?thesis using path_clear_pair[OF wf v] 5
      by (simp add: Elephant_move_path_def ds dd encode_valid(1)[OF v(1)] encode_valid(1)[OF v(2)])
  next
    case 6
    have v: "valid_index sr (sc + 1)" "valid_index (sr - 1) (sc + 2)"
      using b 6 by (auto simp: valid_index_def)
    show ?thesis using path_clear_pair[OF wf v] 6
      by (simp add: Elephant_move_path_def ds dd encode_valid(1)[OF v(1)] encode_valid(1)[OF v(2)])
  next
    case 7
    have v: "valid_index sr (sc - 1)" "valid_index (sr + 1) (sc - 2)"
      using b 7 by (auto simp: valid_index_def)
    show ?thesis using path_clear_pair[OF wf v] 7
      by (simp add: Elephant_move_path_def ds dd encode_valid(1)[OF v(1)] encode_valid(1)[OF v(2)])
  next
    case 8
    have v: "valid_index sr (sc - 1)" "valid_index (sr - 1) (sc - 2)"
      using b 8 by (auto simp: valid_index_def)
    show ?thesis using path_clear_pair[OF wf v] 8
      by (simp add: Elephant_move_path_def ds dd encode_valid(1)[OF v(1)] encode_valid(1)[OF v(2)])
  qed
qed

lemma Elephant_is_legal_total:
  assumes wf: "wf_board (board g)"
    and ds: "decode_location source = Inr (sr, sc)"
    and dd: "decode_location destination = Inr (dr, dc)"
  shows "\<exists>b. Elephant_is_legal g p source destination = Inr b
            \<and> (friendly g p (occupant_at g (dr, dc)) \<longrightarrow> \<not> b)"
  using Elephant_path_total[OF wf ds dd]
  by (auto simp add: Elephant_is_legal_def ds dd board_get_decoded[OF wf dd])

lemma Horse_path_total:
  assumes wf: "wf_board (board g)"
    and ds: "decode_location source = Inr (sr, sc)"
    and dd: "decode_location destination = Inr (dr, dc)"
    and shape: "(\<bar>dr - sr\<bar> = 2 \<and> \<bar>dc - sc\<bar> = 1) \<or> (\<bar>dr - sr\<bar> = 1 \<and> \<bar>dc - sc\<bar> = 2)"
  shows "\<exists>x. bindE (Horse_move_path source destination) (path_clear g) = Inr x"
proof -
  note b = decode_range[OF ds] decode_range[OF dd]
  from shape consider
      "dr = sr - 2" "\<bar>dc - sc\<bar> = 1" | "dr = sr + 2" "\<bar>dc - sc\<bar> = 1"
    | "dc = sc + 2" "\<bar>dr - sr\<bar> = 1" | "dc = sc - 2" "\<bar>dr - sr\<bar> = 1"
    by (auto simp: abs_if split: if_splits)
  then show ?thesis
  proof cases
    case 1
    have v: "valid_index (sr - 1) sc" using b 1 by (auto simp: valid_index_def)
    have n: "dc - sc \<noteq> 2" "dc - sc \<noteq> - 2" using 1 by auto
    show ?thesis using path_clear_single[OF wf v] 1(1) n
      by (simp add: Horse_move_path_def ds dd encode_valid(1)[OF v])
  next
    case 2
    have v: "valid_index (sr + 1) sc" using b 2 by (auto simp: valid_index_def)
    have n: "dc - sc \<noteq> 2" "dc - sc \<noteq> - 2" using 2 by auto
    show ?thesis using path_clear_single[OF wf v] 2(1) n
      by (simp add: Horse_move_path_def ds dd encode_valid(1)[OF v])
  next
    case 3
    have v: "valid_index sr (sc + 1)" using b 3 by (auto simp: valid_index_def)
    have n: "dr - sr \<noteq> 2" "dr - sr \<noteq> - 2" using 3 by auto
    show ?thesis using path_clear_single[OF wf v] 3(1) n
      by (simp add: Horse_move_path_def ds dd encode_valid(1)[OF v])
  next
    case 4
    have v: "valid_index sr (sc - 1)" using b 4 by (auto simp: valid_index_def)
    have n: "dr - sr \<noteq> 2" "dr - sr \<noteq> - 2" using 4 by auto
    show ?thesis using path_clear_single[OF wf v] 4(1) n
      by (simp add: Horse_move_path_def ds dd encode_valid(1)[OF v])
  qed
qed

lemma Horse_is_legal_total:
  assumes wf: "wf_board (board g)"
    and ds: "decode_location source = Inr (sr, sc)"
    and dd: "decode_location destination = Inr (dr, dc)"
  shows "\<exists>b. Horse_is_legal g p source destination = Inr b
            \<and> (friendly g p (occupant_at g (dr, dc)) \<longrightarrow> \<not> b)"
  using Horse_path_total[OF wf ds dd]
  by (auto simp add: Horse_is_legal_def ds dd board_get_decoded[OF wf dd])

lemma Chariot_move_path_squares:
  assumes ds: "decode_location source = Inr (sr, sc)"
    and dd: "decode_location destination = Inr (dr, dc)"
  shows "\<exists>sqs. Chariot_move_path source destination = Inr (map square_name sqs)
            \<and> (\<forall>sq \<in> set sqs. valid_index (fst sq) (snd sq))"
proof -
  note v = decode_valid[OF ds] decode_valid[OF dd]
  let ?A = "source \<in> set palace_corners \<and> destination \<in> set palace_corners
             \<and> \<bar>dr - sr\<bar> = \<bar>dc - sc\<bar>"
  let ?B = "(source \<in> set palace_corners \<and> destination \<in> set palace_centers)
                \<or> (destination \<in> set palace_corners \<and> source \<in> set palace_centers)"
  let ?sqs = "if ?A then (if source \<in> set blue_palace_corners then [(8, 4)] else [(1, 4)])
              else if ?B then [] else line_squares (sr, sc) (dr, dc)"
  have "Chariot_move_path source destination = Inr (map square_name ?sqs)"
    unfolding Chariot_move_path_decoded[OF ds dd] by (simp add: centre_names)
  moreover have "\<forall>sq \<in> set ?sqs. valid_index (fst sq) (snd sq)"
    using line_squares_valid[OF v] by (auto simp: valid_index_def)
  ultimately show ?thesis by blast
qed

lemma Chariot_is_legal_total:
  assumes wf: "wf_board (board g)"
    and ds: "decode_location source = Inr (sr, sc)"
    and dd: "decode_location destination = Inr (dr, dc)"
  shows "\<exists>b. Chariot_is_legal g p source destination = Inr b
            \<and> (friendly g p (occupant_at g (dr, dc)) \<longrightarrow> \<not> b)"
proof -
  from Chariot_move_path_squares[OF ds dd] obtain sqs
    where p: "Chariot_move_path source destination = Inr (map square_name sqs)"
      and v: "\<And>sq. sq \<in> set sqs \<Longrightarrow> valid_index (fst sq) (snd sq)" by blast
  show ?thesis
    by (auto simp add: Chariot_is_legal_def ds dd board_get_decoded[OF wf dd] p
          path_clear_squares[OF wf v])
qed

lemma Cannon_is_legal_total:
  assumes wf: "wf_board (board g)"
    and ds: "decode_location source = Inr (sr, sc)"
    and dd: "decode_location destination = Inr (dr, dc)"
  shows "\<exists>b. Cannon_is_legal g p source destination = Inr b
            \<and> (friendly g p (occupant_at g (dr, dc)) \<longrightarrow> \<not> b)"
proof -
  from Chariot_move_path_squares[OF ds dd] obtain sqs
    where p: "Chariot_move_path source destination = Inr (map square_name sqs)"
      and v: "\<And>sq. sq \<in> set sqs \<Longrightarrow> valid_index (fst sq) (snd sq)" by blast
  show ?thesis
    by (auto simp add: Cannon_is_legal_def Cannon_move_path_def ds dd board_get_decoded[OF wf dd] p
          count_jumps_squares[OF wf v])
qed

lemma piece_is_legal_total:
  assumes wf: "wf_board (board g)"
    and ds: "decode_location source = Inr (sr, sc)"
    and dd: "decode_location destination = Inr (dr, dc)"
  shows "\<exists>b. piece_is_legal g p source destination = Inr b
            \<and> (friendly g p (occupant_at g (dr, dc)) \<longrightarrow> \<not> b)"
  unfolding piece_is_legal_def
  using General_is_legal_total[OF assms] Guard_is_legal_total[OF assms]
    Elephant_is_legal_total[OF assms] Horse_is_legal_total[OF assms]
    Chariot_is_legal_total[OF assms] Cannon_is_legal_total[OF assms]
    Soldier_is_legal_total[OF assms]
  by (cases "piece_kind (pieces g p)") simp_all

subsection \<open>Check does not depend on the undo buffer\<close>

lemma get_occupant_cong:
  "board g = board h \<Longrightarrow> get_occupant g sq = get_occupant h sq"
  unfolding get_occupant_def by simp

lemma friendly_cong:
  "pieces g = pieces h \<Longrightarrow> friendly g p occ = friendly h p occ"
  unfolding friendly_def by (cases occ) simp_all

lemma path_clear_cong:
  assumes "board g = board h"
  shows "path_clear g sqs = path_clear h sqs"
proof (induction sqs)
  case Nil
  show ?case by simp
next
  case (Cons sq sqs)
  show ?case unfolding path_clear.simps Cons.IH get_occupant_cong[OF assms] by (rule refl)
qed

lemma count_jumps_cong:
  assumes "board g = board h" "pieces g = pieces h"
  shows "count_jumps g sqs acc = count_jumps h sqs acc"
proof (induction sqs arbitrary: acc)
  case Nil
  show ?case by simp
next
  case (Cons sq sqs)
  show ?case unfolding count_jumps.simps Cons.IH get_occupant_cong[OF assms(1)] assms(2)
    by (rule refl)
qed

lemma piece_is_legal_cong:
  assumes "board g = board h" "pieces g = pieces h"
  shows "piece_is_legal g p s d = piece_is_legal h p s d"
  unfolding piece_is_legal_def General_is_legal_def Guard_is_legal_def Elephant_is_legal_def
    Horse_is_legal_def Chariot_is_legal_def Cannon_is_legal_def Soldier_is_legal_def
    assms friendly_cong[OF assms(2)] path_clear_cong[OF assms(1)] count_jumps_cong[OF assms]
  by (rule refl)

lemma any_attacks_cong:
  assumes "board g = board h" "pieces g = pieces h"
  shows "any_attacks g gl ps = any_attacks h gl ps"
proof (induction ps)
  case Nil
  show ?case by simp
next
  case (Cons p ps)
  show ?case unfolding any_attacks.simps Cons.IH piece_is_legal_cong[OF assms] assms(2)
    by (rule refl)
qed

lemma is_in_check_cong:
  assumes "board g = board h" "pieces g = pieces h"
    and "blue_cart g = blue_cart h" "red_cart g = red_cart h"
  shows "is_in_check g player = is_in_check h player"
proof -
  have c: "\<And>c. get_cart g c = get_cart h c"
    using assms(3,4) by (case_tac c) simp_all
  show ?thesis
    unfolding is_in_check_def get_general_def c assms(2) any_attacks_cong[OF assms(1,2)]
    by (rule refl)
qed

lemma move_piece_success:
  assumes wf: "wf_board (board g)"
    and mv: "move_piece source destination g = (Inr (), g1)"
  shows "\<exists>sr sc dr dc p. decode_location source = Inr (sr, sc)
            \<and> decode_location destination = Inr (dr, dc)
            \<and> board g ! nat sr ! nat sc = Some p"
proof (cases "decode_location source")
  case (Inl e)
  with mv show ?thesis by (simp add: move_piece_def)
next
  case ds: (Inr s)
  obtain sr sc where s: "s = (sr, sc)" by (cases s)
  show ?thesis
  proof (cases "decode_location destination")
    case (Inl e)
    with mv ds s show ?thesis by (simp add: move_piece_def)
  next
    case dd: (Inr d)
    obtain dr dc where d: "d = (dr, dc)" by (cases d)
    note rs = decode_range[OF ds[unfolded s]] decode_range[OF dd[unfolded d]]
    have "board g ! nat sr ! nat sc \<noteq> None"
    proof
      assume none: "board g ! nat sr ! nat sc = None"
      have "fst (move_piece source destination g) = Inl AttributeError"
        using rs wf none
        by (simp add: move_piece_def ds dd s d board_get_wf bindS_write_cell wf_board_update
              split: option.splits)
      with mv show False by simp
    qed
    then show ?thesis using ds dd s d by auto
  qed
qed

lemma capture_carts_temp:
  "blue_cart (capture occ (g\<lparr>temp := t\<rparr>)) = blue_cart (capture occ g)"
  "red_cart (capture occ (g\<lparr>temp := t\<rparr>)) = red_cart (capture occ g)"
  by (cases occ; simp add: capture_def)+

lemma during_temp_move_fields:
  assumes wf: "wf_board (board g)"
    and ds: "decode_location source = Inr (sr, sc)"
    and dd: "decode_location destination = Inr (dr, dc)"
    and sp: "board g ! nat sr ! nat sc = Some p"
    and mv: "move_piece source destination g = (Inr (), g1)"
  shows "board (during_temp_move source destination g) = board g1"
    and "pieces (during_temp_move source destination g) = pieces g1"
    and "blue_cart (during_temp_move source destination g) = blue_cart g1"
    and "red_cart (during_temp_move source destination g) = red_cart g1"
proof -
  note rs = decode_range[OF ds] decode_range[OF dd]
  let ?occ = "board g ! nat dr ! nat dc"
  let ?g0 = "g\<lparr>temp := ?occ\<rparr>"
  have prep: "prep_temp_move destination g = (Inr (), ?g0)"
    using rs wf by (simp add: prep_temp_move_def dd board_get_wf)
  have wf0: "wf_board (board ?g0)" and sp0: "board ?g0 ! nat sr ! nat sc = Some p"
    using wf sp by simp_all
  from move_piece_fields[OF wf0 ds dd sp0]
  obtain h where mh: "move_piece source destination ?g0 = (Inr (), h)"
    and bh: "board h = ((board g)[nat dr := (board g ! nat dr)[nat dc := Some p]])
                   [nat sr := ((board g)[nat dr := (board g ! nat dr)[nat dc := Some p]] ! nat sr)[nat sc := None]]"
    and ph: "pieces h = (pieces g)(p := (pieces g p)\<lparr>piece_location := destination\<rparr>)"
    and blh: "blue_cart h = blue_cart (capture ?occ ?g0)"
    and rdh: "red_cart h = red_cart (capture ?occ ?g0)"
    by auto
  from move_piece_fields[OF wf ds dd sp] mv
  have b1: "board g1 = ((board g)[nat dr := (board g ! nat dr)[nat dc := Some p]])
                   [nat sr := ((board g)[nat dr := (board g ! nat dr)[nat dc := Some p]] ! nat sr)[nat sc := None]]"
    and p1: "pieces g1 = (pieces g)(p := (pieces g p)\<lparr>piece_location := destination\<rparr>)"
    and bl1: "blue_cart g1 = blue_cart (capture ?occ g)"
    and rd1: "red_cart g1 = red_cart (capture ?occ g)"
    by auto
  have during: "during_temp_move source destination g = h"
    by (simp add: during_temp_move_def bindS_def prep mh)
  show "board (during_temp_move source destination g) = board g1"
    "pieces (during_temp_move source destination g) = pieces g1"
    "blue_cart (during_temp_move source destination g) = blue_cart g1"
    "red_cart (during_temp_move source destination g) = red_cart g1"
    unfolding during by (simp_all add: bh b1 ph p1 blh bl1 rdh rd1 capture_carts_temp)
qed

subsection \<open>Records and the board\<close>

lemma all_squares_iff: "((r, c) \<in> set all_squares) = valid_index r c"
  by (auto simp: all_squares_def valid_index_def)

lemma square_name_inject:
  assumes "valid_index r1 c1" "valid_index r2 c2"
    and "square_name (r1, c1) = square_name (r2, c2)"
  shows "(r1, c1) = (r2, c2)"
proof -
  have "decode_location (square_name (r1, c1)) = Inr (r1, c1)"
    by (rule encode_valid(2)[OF assms(1)])
  moreover have "decode_location (square_name (r2, c2)) = Inr (r2, c2)"
    by (rule encode_valid(2)[OF assms(2)])
  ultimately have "Inr (r1, c1) = (Inr (r2, c2) :: error + int \<times> int)"
    using assms(3) by (simp only:)
  then show ?thesis by (simp only: sum.inject)
qed

lemma well_formed_square_name:
  assumes "well_formed t" "decode_location t = Inr (r, c)"
  shows "t = square_name (r, c)"
proof -
  from encode_decode[OF assms(1)] assms(2)
  have "encode_location r c = Inr t" by auto
  then show ?thesis by (simp add: square_name_def)
qed

lemma get_general_filter:
  "foldl (\<lambda>general p. if P p then Some p else general) acc xs
     = (case filter P xs of [] \<Rightarrow> acc | ys \<Rightarrow> Some (last ys))"
proof (induction xs arbitrary: acc)
  case Nil
  show ?case by simp
next
  case (Cons x xs)
  show ?case by (simp add: Cons.IH split: list.splits)
qed

lemma get_general_unique:
  assumes one: "length (filter (\<lambda>p. piece_kind (pieces g p) = General) (get_cart g c)) = 1"
    and mem: "gen \<in> set (get_cart g c)" and k: "piece_kind (pieces g gen) = General"
  shows "get_general g c = Some gen"
proof -
  let ?P = "\<lambda>p. piece_kind (pieces g p) = General"
  have n: "\<And>p. (get_name (piece_kind (pieces g p)) = ''GN'') = ?P p"
    by (case_tac "piece_kind (pieces g p)") simp_all
  from one obtain x where x: "filter ?P (get_cart g c) = [x]"
    by (cases "filter ?P (get_cart g c)") auto
  have "gen \<in> set (filter ?P (get_cart g c))" using mem k by simp
  with x have "x = gen" by simp
  with x show ?thesis
    by (simp add: get_general_def n get_general_filter)
qed

lemma any_attacks_hit:
  assumes wf: "wf_board (board g)"
    and gl: "decode_location gl = Inr (gr, gc)"
    and dec: "\<And>p. p \<in> set ps \<Longrightarrow> \<exists>rc. decode_location (piece_location (pieces g p)) = Inr rc"
    and hit: "\<exists>a \<in> set ps. piece_is_legal g a (piece_location (pieces g a)) gl = Inr True"
  shows "any_attacks g gl ps = Inr True"
  using dec hit
proof (induction ps)
  case Nil
  then show ?case by simp
next
  case (Cons p ps)
  from Cons.prems(1)[of p] obtain r c
    where d: "decode_location (piece_location (pieces g p)) = Inr (r, c)" by auto
  from piece_is_legal_total[OF wf d gl, of p] obtain b
    where b: "piece_is_legal g p (piece_location (pieces g p)) gl = Inr b" by blast
  show ?case
  proof (cases b)
    case True
    with b show ?thesis by simp
  next
    case False
    with b Cons.prems(2) have "\<exists>a \<in> set ps. piece_is_legal g a (piece_location (pieces g a)) gl = Inr True"
      by auto
    with Cons.IH Cons.prems(1) have "any_attacks g gl ps = Inr True" by simp
    with b False show ?thesis by simp
  qed
qed

lemma occupant_after_move:
  assumes wf: "wf_board (board g)"
    and vs: "valid_index sr sc" and vd: "valid_index dr dc" and vx: "valid_index xr xc"
    and neq: "(sr, sc) \<noteq> (dr, dc)"
    and b1: "board g1 = ((board g)[nat dr := (board g ! nat dr)[nat dc := Some p]])
                   [nat sr := ((board g)[nat dr := (board g ! nat dr)[nat dc := Some p]] ! nat sr)[nat sc := None]]"
  shows "occupant_at g1 (xr, xc) =
           (if (xr, xc) = (sr, sc) then None
            else if (xr, xc) = (dr, dc) then Some p else occupant_at g (xr, xc))"
proof -
  let ?b = "board g"
  let ?b1 = "?b[nat dr := (?b ! nat dr)[nat dc := Some p]]"
  have w1: "wf_board ?b1" by (rule wf_board_update[OF wf])
  have b: "0 \<le> sr" "sr \<le> 9" "0 \<le> sc" "sc \<le> 8" "0 \<le> dr" "dr \<le> 9" "0 \<le> dc" "dc \<le> 8"
       "0 \<le> xr" "xr \<le> 9" "0 \<le> xc" "xc \<le> 8"
    using vs vd vx by (auto simp: valid_index_def)
  have lb: "length ?b = 10" "length (?b ! nat dr) = 9"
    using wf b by (auto simp: wf_board_def list_all_length)
  have lb1: "length ?b1 = 10" "length (?b1 ! nat sr) = 9"
    using w1 b by (auto simp: wf_board_def list_all_length)
  have n: "nat sr < 10" "nat dr < 10" "nat xr < 10" "nat sc < 9" "nat dc < 9"
    using b by auto
  have A: "?b1[nat sr := (?b1 ! nat sr)[nat sc := None]] ! nat xr ! nat xc
         = (if nat xr = nat sr \<and> nat xc = nat sc then None else ?b1 ! nat xr ! nat xc)"
    by (rule nth_board_update) (use lb1 n in auto)
  have B: "?b1 ! nat xr ! nat xc
         = (if nat xr = nat dr \<and> nat xc = nat dc then Some p else ?b ! nat xr ! nat xc)"
    by (rule nth_board_update) (use lb n in auto)
  have e1: "(nat xr = nat sr \<and> nat xc = nat sc) = ((xr, xc) = (sr, sc))"
    using b by auto
  have e2: "(nat xr = nat dr \<and> nat xc = nat dc) = ((xr, xc) = (dr, dc))"
    using b by auto
  show ?thesis
    unfolding occupant_at_def b1 fst_conv snd_conv A B e1 e2 by (rule refl)
qed

subsection \<open>Carts after a temporary move\<close>

lemma get_cart_capture:
  "get_cart (capture occ g) c =
     (case occ of None \<Rightarrow> get_cart g c
      | Some q \<Rightarrow> if piece_owner (pieces g q) = c then remove1 q (get_cart g c) else get_cart g c)"
  by (cases occ; cases c) (auto simp: capture_def)

lemma get_cart_restore:
  "get_cart (restore occ g) c =
     (case occ of None \<Rightarrow> get_cart g c
      | Some q \<Rightarrow> if piece_owner (pieces g q) = c then get_cart g c @ [q] else get_cart g c)"
  by (cases occ; cases c) (auto simp: restore_def)

lemma get_cart_eqI:
  "blue_cart g = blue_cart h \<Longrightarrow> red_cart g = red_cart h \<Longrightarrow> get_cart g c = get_cart h c"
  by (cases c) simp_all

lemma move_piece_carts:
  assumes wf: "wf_board (board g)"
    and ds: "decode_location source = Inr (sr, sc)"
    and dd: "decode_location destination = Inr (dr, dc)"
    and sp: "board g ! nat sr ! nat sc = Some p"
    and mv: "move_piece source destination g = (Inr (), g1)"
  shows "get_cart g1 c = get_cart (capture (board g ! nat dr ! nat dc) g) c"
    and "board g1 = ((board g)[nat dr := (board g ! nat dr)[nat dc := Some p]])
                   [nat sr := ((board g)[nat dr := (board g ! nat dr)[nat dc := Some p]] ! nat sr)[nat sc := None]]"
    and "pieces g1 = (pieces g)(p := (pieces g p)\<lparr>piece_location := destination\<rparr>)"
  using move_piece_fields[OF wf ds dd sp] mv by (auto intro: get_cart_eqI)

lemma temp_move_all_fields:
  assumes wf: "wf_board (board g)"
    and ds: "decode_location source = Inr (sr, sc)"
    and dd: "decode_location destination = Inr (dr, dc)"
    and sp: "board g ! nat sr ! nat sc = Some p"
    and neq: "(sr, sc) \<noteq> (dr, dc)"
    and lg: "logic (during_temp_move source destination g) = Inr r"
  shows "\<exists>g'. temp_move source destination logic g = (Inr r, g')
     \<and> board g' = board g
     \<and> pieces g' = (pieces g)(p := (pieces g p)\<lparr>piece_location := source\<rparr>)
     \<and> temp g' = None \<and> game_state g' = game_state g \<and> current_player g' = current_player g
     \<and> (\<forall>c. get_cart g' c =
            (case board g ! nat dr ! nat dc of None \<Rightarrow> get_cart g c
             | Some q \<Rightarrow> if piece_owner (pieces g q) = c then remove1 q (get_cart g c) @ [q]
                         else get_cart g c))"
proof -
  note rs = decode_range[OF ds] decode_range[OF dd]
  let ?occ = "board g ! nat dr ! nat dc"
  let ?g0 = "g\<lparr>temp := ?occ\<rparr>"
  have prep: "prep_temp_move destination g = (Inr (), ?g0)"
    using rs wf by (simp add: prep_temp_move_def dd board_get_wf)
  have wf0: "wf_board (board ?g0)" and sp0: "board ?g0 ! nat sr ! nat sc = Some p"
    using wf sp by simp_all
  from move_piece_fields[OF wf0 ds dd sp0]
  obtain g1 where mv: "move_piece source destination ?g0 = (Inr (), g1)"
    and b1: "board g1 = ((board g)[nat dr := (board g ! nat dr)[nat dc := Some p]])
                   [nat sr := ((board g)[nat dr := (board g ! nat dr)[nat dc := Some p]] ! nat sr)[nat sc := None]]"
    and p1: "pieces g1 = (pieces g)(p := (pieces g p)\<lparr>piece_location := destination\<rparr>)"
    and t1: "temp g1 = ?occ" and s1: "game_state g1 = game_state g"
    and c1: "current_player g1 = current_player g"
    and bl1: "blue_cart g1 = blue_cart (capture ?occ ?g0)"
    and rd1: "red_cart g1 = red_cart (capture ?occ ?g0)"
    by auto
  have during: "during_temp_move source destination g = g1"
    by (simp add: during_temp_move_def bindS_def prep mv)
  have wf1: "wf_board (board g1)"
    unfolding b1 by (intro wf_board_update wf)
  have nn: "(nat sr, nat sc) \<noteq> (nat dr, nat dc)"
    using neq rs by auto
  have len: "length (board g) = 10" "length (board g ! nat dr) = 9" "length (board g ! nat sr) = 9"
    using wf rs by (auto simp add: wf_board_def list_all_length)
  have at_d: "board g1 ! nat dr ! nat dc = Some p"
    unfolding b1 using nn rs len by (auto simp add: nth_list_update)
  from undo_temp_move_fields[OF wf1 ds dd at_d]
  obtain g2 where un: "undo_temp_move source destination g1 = (Inr (), g2)"
    and b2: "board g2 = ((board g1)[nat sr := (board g1 ! nat sr)[nat sc := Some p]])
                   [nat dr := ((board g1)[nat sr := (board g1 ! nat sr)[nat sc := Some p]] ! nat dr)[nat dc := temp g1]]"
    and p2: "pieces g2 = (pieces g1)(p := (pieces g1 p)\<lparr>piece_location := source\<rparr>)"
    and t2: "temp g2 = None" and s2: "game_state g2 = game_state g1"
    and c2: "current_player g2 = current_player g1"
    and bl2: "blue_cart g2 = blue_cart (restore (temp g1) g1)"
    and rd2: "red_cart g2 = red_cart (restore (temp g1) g1)"
    by auto
  have run: "temp_move source destination logic g = (Inr r, g2)"
    using lg by (simp add: temp_move_def bindS_def prep mv un during reads_def)
  have board: "board g2 = board g"
    unfolding b2 t1 unfolding b1
    by (rule board_round_trip[OF wf _ _ _ _ nn sp]) (use rs in auto)
  have pcs: "pieces g2 = (pieces g)(p := (pieces g p)\<lparr>piece_location := source\<rparr>)"
    by (simp add: p2 p1)
  have carts: "\<And>c. get_cart g2 c =
            (case ?occ of None \<Rightarrow> get_cart g c
             | Some q \<Rightarrow> if piece_owner (pieces g q) = c then remove1 q (get_cart g c) @ [q]
                         else get_cart g c)"
  proof -
    fix c
    have "get_cart g2 c = get_cart (restore ?occ g1) c"
      using bl2 rd2 t1 by (cases c) simp_all
    also have "\<dots> = (case ?occ of None \<Rightarrow> get_cart g1 c
        | Some q \<Rightarrow> if piece_owner (pieces g q) = c then get_cart g1 c @ [q] else get_cart g1 c)"
      by (simp add: get_cart_restore p1 split: option.splits)
    also have "get_cart g1 c = get_cart (capture ?occ ?g0) c"
      using bl1 rd1 by (cases c) simp_all
    also have "\<dots> = get_cart (capture ?occ g) c"
      by (cases c) (simp_all add: capture_carts_temp)
    also have "\<dots> = (case ?occ of None \<Rightarrow> get_cart g c
        | Some q \<Rightarrow> if piece_owner (pieces g q) = c then remove1 q (get_cart g c) else get_cart g c)"
      by (rule get_cart_capture)
    finally show "get_cart g2 c =
            (case ?occ of None \<Rightarrow> get_cart g c
             | Some q \<Rightarrow> if piece_owner (pieces g q) = c then remove1 q (get_cart g c) @ [q]
                         else get_cart g c)"
      by (simp split: option.splits)
  qed
  show ?thesis
    using run board pcs t2 s2 s1 c2 c1 carts by simp
qed

subsection \<open>Rejection of a move that leaves check\<close>

lemma make_move_rejected_when_checked:
  assumes wf: "wf_board (board g)"
    and unfinished: "game_state g = ''UNFINISHED''"
    and differ: "source \<noteq> destination"
    and ds: "decode_location source = Inr (sr, sc)"
    and dd: "decode_location destination = Inr (dr, dc)"
    and sp: "board g ! nat sr ! nat sc = Some p"
    and mv: "move_piece source destination g = (Inr (), g1)"
    and chk: "piece_owner (pieces g p) = current_player g \<Longrightarrow>
              \<not> friendly g p (occupant_at g (dr, dc)) \<Longrightarrow> (sr, sc) \<noteq> (dr, dc) \<Longrightarrow>
              is_in_check g1 (current_player g) = Inr True"
  shows "\<exists>g'. make_move source destination g = (Inr False, g')
            \<and> board g' = board g
            \<and> current_player g' = current_player g
            \<and> game_state g' = game_state g
            \<and> (g' = g \<or>
                 (pieces g' = (pieces g)(p := (pieces g p)\<lparr>piece_location := source\<rparr>)
                  \<and> (\<forall>c. get_cart g' c =
                        (case board g ! nat dr ! nat dc of None \<Rightarrow> get_cart g c
                         | Some q \<Rightarrow> if piece_owner (pieces g q) = c
                                     then remove1 q (get_cart g c) @ [q] else get_cart g c))))"
proof -
  have occ: "get_occupant g source = Inr (Some p)"
    using get_occupant_decoded[OF wf ds] sp by (simp add: occupant_at_def)
  have bg: "board_get (board g) sr sc = Inr (Some p)"
    using board_get_decoded[OF wf ds] sp by (simp add: occupant_at_def)
  show ?thesis
  proof (cases "piece_owner (pieces g p) \<noteq> current_player g")
    case True
    then have "make_move source destination g = (Inr False, g)"
      using unfinished differ occ by (simp add: make_move_def)
    then show ?thesis by simp
  next
    case False
    then have own: "piece_owner (pieces g p) = current_player g" by simp
    from piece_is_legal_total[OF wf ds dd] obtain ok
      where pl: "piece_is_legal g p source destination = Inr ok"
        and fr: "friendly g p (occupant_at g (dr, dc)) \<longrightarrow> \<not> ok" by blast
    show ?thesis
    proof (cases ok)
      case False
      then have "Board_is_legal source destination g = (Inr False, g)"
        using pl by (simp add: Board_is_legal_def ds bg)
      then have "make_move source destination g = (Inr False, g)"
        using unfinished differ occ own
        by (simp add: make_move_def bindS_def [of "Board_is_legal source destination"])
      then show ?thesis by simp
    next
      case True
      have nf: "\<not> friendly g p (occupant_at g (dr, dc))" using fr True by blast
      have neq: "(sr, sc) \<noteq> (dr, dc)"
      proof
        assume "(sr, sc) = (dr, dc)"
        then have "occupant_at g (dr, dc) = Some p" using sp by (auto simp: occupant_at_def)
        then have "friendly g p (occupant_at g (dr, dc))" by (simp add: friendly_def)
        with nf show False by simp
      qed
      note d = during_temp_move_fields[OF wf ds dd sp mv]
      have lg: "is_in_check (during_temp_move source destination g) (piece_owner (pieces g p))
                  = Inr True"
        using is_in_check_cong[OF d] chk[OF own nf neq] own by simp
      from temp_move_all_fields[where logic = "\<lambda>h. is_in_check h (piece_owner (pieces g p))",
          OF wf ds dd sp neq lg]
      obtain g' where tm: "temp_move source destination
              (\<lambda>h. is_in_check h (piece_owner (pieces g p))) g = (Inr True, g')"
        and b: "board g' = board g" and s: "game_state g' = game_state g"
        and c: "current_player g' = current_player g"
        and pc: "pieces g' = (pieces g)(p := (pieces g p)\<lparr>piece_location := source\<rparr>)"
        and ct: "\<forall>c. get_cart g' c =
                        (case board g ! nat dr ! nat dc of None \<Rightarrow> get_cart g c
                         | Some q \<Rightarrow> if piece_owner (pieces g q) = c
                                     then remove1 q (get_cart g c) @ [q] else get_cart g c)"
        by blast
      have "Board_is_legal source destination g = (Inr False, g')"
        using pl True
        by (simp add: Board_is_legal_def ds bg tm
              bindS_def [of "temp_move source destination
                               (\<lambda>h. is_in_check h (piece_owner (pieces g p)))"])
      then have "make_move source destination g = (Inr False, g')"
        using unfinished differ occ own
        by (simp add: make_move_def bindS_def [of "Board_is_legal source destination"])
      then show ?thesis using b s c pc ct by blast
    qed
  qed
qed

lemma opponent_by_color: "(if get_color c = ''blue'' then Red else Blue) = opponent_of c"
  by (cases c) simp_all

lemma records_agree_board:
  assumes "records_agree g" "valid_index r c" "occupant_at g (r, c) = Some q"
  shows "piece_location (pieces g q) = square_name (r, c)"
    and "q \<in> set (get_cart g (piece_owner (pieces g q)))"
proof -
  have "(r, c) \<in> set all_squares" using assms(2) by (simp add: all_squares_iff)
  with assms(1) have "case occupant_at g (r, c) of None \<Rightarrow> True
      | Some p \<Rightarrow> piece_location (pieces g p) = square_name (r, c)
                  \<and> p \<in> set (get_cart g (piece_owner (pieces g p)))"
    unfolding records_agree_def list_all_iff by blast
  with assms(3) show "piece_location (pieces g q) = square_name (r, c)"
    "q \<in> set (get_cart g (piece_owner (pieces g q)))" by simp_all
qed

lemma records_agree_cart:
  assumes "records_agree g" "q \<in> set (get_cart g c)"
  shows "piece_owner (pieces g q) = c"
    and "\<exists>r c'. valid_index r c' \<and> occupant_at g (r, c') = Some q"
    and "distinct (get_cart g c)"
    and "length (filter (\<lambda>p. piece_kind (pieces g p) = General) (get_cart g c)) = 1"
proof -
  have cc: "cart_consistent g c" using assms(1) by (cases c) (simp_all add: records_agree_def)
  then show "distinct (get_cart g c)"
    "length (filter (\<lambda>p. piece_kind (pieces g p) = General) (get_cart g c)) = 1"
    by (simp_all add: cart_consistent_def)
  from cc assms(2) have a: "piece_owner (pieces g q) = c
       \<and> list_ex (\<lambda>sq. occupant_at g sq = Some q) all_squares"
    unfolding cart_consistent_def list_all_iff by blast
  then show "piece_owner (pieces g q) = c" by simp
  from a obtain sq where "sq \<in> set all_squares" "occupant_at g sq = Some q"
    unfolding list_ex_iff by blast
  obtain r c' where e: "sq = (r, c')" by (cases sq) auto
  have "valid_index r c'" using \<open>sq \<in> set all_squares\<close> unfolding e all_squares_iff .
  moreover have "occupant_at g (r, c') = Some q" using \<open>occupant_at g sq = Some q\<close> unfolding e .
  ultimately show "\<exists>r c'. valid_index r c' \<and> occupant_at g (r, c') = Some q" by blast
qed

lemma attacked_on_boardD:
  assumes "attacked_on_board g player"
  shows "\<exists>gr gc ar ac general a. valid_index gr gc \<and> valid_index ar ac
           \<and> occupant_at g (gr, gc) = Some general
           \<and> piece_kind (pieces g general) = General \<and> piece_owner (pieces g general) = player
           \<and> occupant_at g (ar, ac) = Some a \<and> piece_owner (pieces g a) = opponent_of player
           \<and> piece_is_legal g a (square_name (ar, ac)) (square_name (gr, gc)) = Inr True"
proof -
  from assms obtain gsq where g1: "gsq \<in> set all_squares"
    and g2: "case occupant_at g gsq of None \<Rightarrow> False
        | Some general \<Rightarrow>
            if piece_kind (pieces g general) = General \<and> piece_owner (pieces g general) = player
            then list_ex (\<lambda>asq.
                   case occupant_at g asq of None \<Rightarrow> False
                   | Some a \<Rightarrow>
                       if piece_owner (pieces g a) = opponent_of player
                       then piece_is_legal g a (square_name asq) (square_name gsq) = Inr True
                       else False) all_squares
            else False"
    unfolding attacked_on_board_def list_ex_iff by blast
  from g2 obtain general where o1: "occupant_at g gsq = Some general"
    by (cases "occupant_at g gsq") auto
  from g2 o1 have k: "piece_kind (pieces g general) = General \<and> piece_owner (pieces g general) = player"
    by (simp split: if_splits)
  from g2 o1 k obtain asq where a1: "asq \<in> set all_squares"
    and a2: "case occupant_at g asq of None \<Rightarrow> False
                   | Some a \<Rightarrow>
                       if piece_owner (pieces g a) = opponent_of player
                       then piece_is_legal g a (square_name asq) (square_name gsq) = Inr True
                       else False"
    unfolding list_ex_iff by auto
  from a2 obtain a where o2: "occupant_at g asq = Some a"
    by (cases "occupant_at g asq") auto
  from a2 o2 have l: "piece_owner (pieces g a) = opponent_of player
       \<and> piece_is_legal g a (square_name asq) (square_name gsq) = Inr True"
    by (simp split: if_splits)
  obtain gr gc ar ac where e: "gsq = (gr, gc)" "asq = (ar, ac)"
    by (cases gsq; cases asq) auto
  show ?thesis
    using g1 a1 o1 o2 k l unfolding e all_squares_iff by blast
qed

subsection \<open>Check on the board after a move\<close>

lemma decode_square_name:
  assumes "valid_index r c"
  shows "decode_location (square_name (r, c)) = Inr (r, c)"
proof -
  from decode_encode[OF assms] obtain t where "encode_location r c = Inr t"
    "decode_location t = Inr (r, c)" by blast
  then show ?thesis by (simp add: square_name_def)
qed

lemma piece_on_one_square:
  assumes ra: "records_agree g"
    and v1: "valid_index r1 c1" and v2: "valid_index r2 c2"
    and o1: "occupant_at g (r1, c1) = Some x" and o2: "occupant_at g (r2, c2) = Some x"
  shows "(r1, c1) = (r2, c2)"
proof -
  have "square_name (r1, c1) = square_name (r2, c2)"
    using records_agree_board(1)[OF ra v1 o1] records_agree_board(1)[OF ra v2 o2] by simp
  then show ?thesis by (rule square_name_inject[OF v1 v2])
qed

lemma filter_remove1_other:
  "\<not> P q \<Longrightarrow> filter P (remove1 q xs) = filter P xs"
  by (induction xs) auto

lemma single_general:
  assumes "length (filter P xs) = 1" "a \<in> set xs" "P a" "b \<in> set xs" "P b"
  shows "a = b"
proof -
  from assms(1) obtain x where x: "filter P xs = [x]"
    by (cases "filter P xs") auto
  have "a \<in> set (filter P xs)" "b \<in> set (filter P xs)" using assms by simp_all
  then show ?thesis unfolding x by simp
qed

lemma moved_records:
  assumes ra: "records_agree g"
    and wfd: "well_formed destination"
    and ds: "decode_location source = Inr (sr, sc)"
    and dd: "decode_location destination = Inr (dr, dc)"
    and sp: "board g ! nat sr ! nat sc = Some p"
    and neq: "(sr, sc) \<noteq> (dr, dc)"
    and mv: "move_piece source destination g = (Inr (), g1)"
    and vx: "valid_index xr xc"
    and ox: "occupant_at g1 (xr, xc) = Some x"
  shows "x \<in> set (get_cart g1 (piece_owner (pieces g x)))"
    and "piece_location (pieces g1 x) = square_name (xr, xc)"
    and "piece_owner (pieces g1 x) = piece_owner (pieces g x)"
    and "piece_kind (pieces g1 x) = piece_kind (pieces g x)"
proof -
  have wf: "wf_board (board g)" using ra by (simp add: records_agree_def)
  have vs: "valid_index sr sc" and vd: "valid_index dr dc"
    using decode_valid[OF ds] decode_valid[OF dd] by simp_all
  note m = move_piece_carts[OF wf ds dd sp mv]
  have op: "occupant_at g (sr, sc) = Some p" using sp by (simp add: occupant_at_def)
  have occ: "occupant_at g1 (xr, xc) =
           (if (xr, xc) = (sr, sc) then None
            else if (xr, xc) = (dr, dc) then Some p else occupant_at g (xr, xc))"
    by (rule occupant_after_move[OF wf vs vd vx neq m(2)])
  have ns: "(xr, xc) \<noteq> (sr, sc)"
  proof
    assume e: "(xr, xc) = (sr, sc)"
    have "occupant_at g1 (xr, xc) = None" unfolding occ using e by (simp only: if_True simp_thms)
    with ox show False by simp
  qed
  show "piece_owner (pieces g1 x) = piece_owner (pieces g x)"
    "piece_kind (pieces g1 x) = piece_kind (pieces g x)"
    unfolding m(3) by simp_all
  obtain yr yc where vy: "valid_index yr yc" and oy: "occupant_at g (yr, yc) = Some x"
    and yd: "(yr, yc) \<noteq> (dr, dc)"
    and cases: "(x = p \<and> (xr, xc) = (dr, dc)) \<or> (x \<noteq> p \<and> (yr, yc) = (xr, xc))"
  proof (cases "(xr, xc) = (dr, dc)")
    case True
    have "occupant_at g1 (xr, xc) = Some p" unfolding occ using ns True
      by (simp only: if_True if_False simp_thms)
    then have "x = p" using ox by simp
    then show ?thesis using that[OF vs _ neq] op True by blast
  next
    case False
    have "occupant_at g1 (xr, xc) = occupant_at g (xr, xc)" unfolding occ using ns False
      by (simp only: if_False simp_thms)
    then have o: "occupant_at g (xr, xc) = Some x" using ox by simp
    have "x \<noteq> p"
    proof
      assume "x = p"
      then have "(xr, xc) = (sr, sc)" using piece_on_one_square[OF ra vx vs] o op by blast
      with ns show False by simp
    qed
    then show ?thesis using that[OF vx o False] by blast
  qed
  have mem: "x \<in> set (get_cart g (piece_owner (pieces g x)))"
    by (rule records_agree_board(2)[OF ra vy oy])
  have notq: "board g ! nat dr ! nat dc \<noteq> Some x"
  proof
    assume "board g ! nat dr ! nat dc = Some x"
    then have "occupant_at g (dr, dc) = Some x" by (simp add: occupant_at_def)
    then have "(yr, yc) = (dr, dc)" using piece_on_one_square[OF ra vy vd oy] by blast
    with yd show False by simp
  qed
  show "x \<in> set (get_cart g1 (piece_owner (pieces g x)))"
    unfolding m(1) get_cart_capture using mem notq
    by (cases "board g ! nat dr ! nat dc") auto
  show "piece_location (pieces g1 x) = square_name (xr, xc)"
  proof (cases "x = p")
    case True
    then have "(xr, xc) = (dr, dc)" using cases by blast
    then show ?thesis unfolding m(3) using True well_formed_square_name[OF wfd dd] by simp
  next
    case False
    then have "(yr, yc) = (xr, xc)" using cases by blast
    then show ?thesis unfolding m(3) using False records_agree_board(1)[OF ra vy oy] by simp
  qed
qed

lemma moved_cart_subset:
  assumes wf: "wf_board (board g)"
    and ds: "decode_location source = Inr (sr, sc)"
    and dd: "decode_location destination = Inr (dr, dc)"
    and sp: "board g ! nat sr ! nat sc = Some p"
    and mv: "move_piece source destination g = (Inr (), g1)"
  shows "set (get_cart g1 c) \<subseteq> set (get_cart g c)"
    and "get_cart g1 c = get_cart g c \<or>
         (\<exists>q. board g ! nat dr ! nat dc = Some q \<and> piece_owner (pieces g q) = c
              \<and> get_cart g1 c = remove1 q (get_cart g c))"
proof -
  note m = move_piece_carts[OF wf ds dd sp mv]
  show "set (get_cart g1 c) \<subseteq> set (get_cart g c)"
    unfolding m(1) get_cart_capture
    by (cases "board g ! nat dr ! nat dc") (auto dest: set_remove1_subset[THEN subsetD])
  show "get_cart g1 c = get_cart g c \<or>
         (\<exists>q. board g ! nat dr ! nat dc = Some q \<and> piece_owner (pieces g q) = c
              \<and> get_cart g1 c = remove1 q (get_cart g c))"
    unfolding m(1) get_cart_capture
    by (cases "board g ! nat dr ! nat dc") auto
qed

lemma check_after_move:
  assumes ra: "records_agree g"
    and wfd: "well_formed destination"
    and ds: "decode_location source = Inr (sr, sc)"
    and dd: "decode_location destination = Inr (dr, dc)"
    and sp: "board g ! nat sr ! nat sc = Some p"
    and neq: "(sr, sc) \<noteq> (dr, dc)"
    and mv: "move_piece source destination g = (Inr (), g1)"
    and att: "attacked_on_board g1 player"
  shows "is_in_check g1 player = Inr True"
proof -
  have wf: "wf_board (board g)" using ra by (simp add: records_agree_def)
  note m = move_piece_carts[OF wf ds dd sp mv]
  have wf1: "wf_board (board g1)"
    unfolding m(2) by (intro wf_board_update wf)
  from attacked_on_boardD[OF att] obtain gr gc ar ac general a where
    vg: "valid_index gr gc" and va: "valid_index ar ac"
    and og: "occupant_at g1 (gr, gc) = Some general"
    and kg: "piece_kind (pieces g1 general) = General"
    and wg: "piece_owner (pieces g1 general) = player"
    and oa: "occupant_at g1 (ar, ac) = Some a"
    and wa: "piece_owner (pieces g1 a) = opponent_of player"
    and hit: "piece_is_legal g1 a (square_name (ar, ac)) (square_name (gr, gc)) = Inr True"
    by blast
  note G = moved_records[OF ra wfd ds dd sp neq mv vg og]
  note A = moved_records[OF ra wfd ds dd sp neq mv va oa]
  have gmem: "general \<in> set (get_cart g1 player)" using G(1) G(3) wg by simp
  have amem: "a \<in> set (get_cart g1 (opponent_of player))" using A(1) A(3) wa by simp
  have kinds: "\<And>x. piece_kind (pieces g1 x) = piece_kind (pieces g x)"
    unfolding m(3) by simp
  have gmem0: "general \<in> set (get_cart g player)"
    using gmem moved_cart_subset(1)[OF wf ds dd sp mv] by blast
  have one0: "length (filter (\<lambda>p. piece_kind (pieces g p) = General) (get_cart g player)) = 1"
    by (rule records_agree_cart(4)[OF ra gmem0])
  have kg0: "piece_kind (pieces g general) = General" using kg kinds by simp
  have one: "length (filter (\<lambda>p. piece_kind (pieces g1 p) = General) (get_cart g1 player)) = 1"
  proof -
    from moved_cart_subset(2)[OF wf ds dd sp mv, of player]
    consider "get_cart g1 player = get_cart g player"
      | q where "get_cart g1 player = remove1 q (get_cart g player)"
      by blast
    then have "filter (\<lambda>p. piece_kind (pieces g p) = General) (get_cart g1 player)
         = filter (\<lambda>p. piece_kind (pieces g p) = General) (get_cart g player)"
    proof cases
      case 1
      then show ?thesis by simp
    next
      case (2 q)
      have gin: "general \<in> set (remove1 q (get_cart g player))" using gmem 2 by simp
      show ?thesis
      proof (cases "piece_kind (pieces g q) = General \<and> q \<in> set (get_cart g player)")
        case True
        then have "general = q" using single_general[OF one0 gmem0 kg0] by blast
        then have "general \<notin> set (remove1 q (get_cart g player))"
          using records_agree_cart(3)[OF ra gmem0] by simp
        with gin show ?thesis by simp
      next
        case False
        then show ?thesis unfolding 2
          by (auto simp: filter_remove1_other remove1_idem)
      qed
    qed
    then show ?thesis using one0 by (simp add: kinds)
  qed
  have gg: "get_general g1 player = Some general"
    by (rule get_general_unique[OF one gmem kg])
  have dec: "\<exists>rc. decode_location (piece_location (pieces g1 x)) = Inr rc"
    if "x \<in> set (get_cart g1 (opponent_of player))" for x
  proof -
    have x0: "x \<in> set (get_cart g (opponent_of player))"
      using that moved_cart_subset(1)[OF wf ds dd sp mv] by blast
    from records_agree_cart(2)[OF ra x0] obtain r c where
      v: "valid_index r c" and o: "occupant_at g (r, c) = Some x" by blast
    show ?thesis
    proof (cases "x = p")
      case True
      then show ?thesis unfolding m(3) using dd by simp
    next
      case False
      then show ?thesis unfolding m(3)
        using records_agree_board(1)[OF ra v o] decode_square_name[OF v] by simp
    qed
  qed
  have "any_attacks g1 (square_name (gr, gc)) (get_cart g1 (opponent_of player)) = Inr True"
  proof (rule any_attacks_hit[OF wf1 decode_square_name[OF vg]])
    fix x assume "x \<in> set (get_cart g1 (opponent_of player))"
    then show "\<exists>rc. decode_location (piece_location (pieces g1 x)) = Inr rc" by (rule dec)
  next
    have "piece_is_legal g1 a (piece_location (pieces g1 a)) (square_name (gr, gc)) = Inr True"
      unfolding A(2) by (rule hit)
    with amem show "\<exists>a\<in>set (get_cart g1 (opponent_of player)).
       piece_is_legal g1 a (piece_location (pieces g1 a)) (square_name (gr, gc)) = Inr True"
      by blast
  qed
  then show ?thesis
    unfolding is_in_check_def opponent_by_color Let_def gg using G(2) by simp
qed

subsection \<open>The opening position\<close>

lemma records_agree_initial_game: "records_agree initial_game"
  by code_simp

section \<open>The claims\<close>

text \<open>
  C1, with the games it holds for. For every unfinished game in which the records agree
  with the board (records\_agree: each piece on the board has the name of its square as
  recorded location and is in its owner's cart, each cart lists pieces of its owner that
  stand on the board, each once, with exactly one General), and every pair of different
  board coordinates with a piece on the source square, such that on the board after the
  piece is moved from source to destination the current player's General is attacked
  (attacked\_on\_board: a piece of the opponent reaches the General's square from the
  square it stands on by its own movement rule), make\_move returns False and commits
  no move: the board, the record of every piece, the player to move and the game state
  are as before, and each cart holds the same pieces as before (a piece captured in the
  trial is put back at the end of its cart, so the order in the cart may differ). This
  holds also when the movement rule of the moving piece permits the move.
\<close>

theorem make_move_rejects_board_check:
  assumes ra: "records_agree g"
    and unfinished: "game_state g = ''UNFINISHED''"
    and wfs: "well_formed source"
    and wfd: "well_formed destination"
    and differ: "source \<noteq> destination"
    and mv: "fst (move_piece source destination g) = Inr ()"
    and att: "attacked_on_board (snd (move_piece source destination g)) (current_player g)"
  shows "fst (make_move source destination g) = Inr False
       \<and> board (snd (make_move source destination g)) = board g
       \<and> pieces (snd (make_move source destination g)) = pieces g
       \<and> mset (blue_cart (snd (make_move source destination g))) = mset (blue_cart g)
       \<and> mset (red_cart (snd (make_move source destination g))) = mset (red_cart g)
       \<and> current_player (snd (make_move source destination g)) = current_player g
       \<and> game_state (snd (make_move source destination g)) = game_state g"
proof -
  define g1 where "g1 = snd (move_piece source destination g)"
  have mv': "move_piece source destination g = (Inr (), g1)"
    using mv unfolding g1_def by (metis prod.collapse)
  have att': "attacked_on_board g1 (current_player g)" using att unfolding g1_def .
  have wf: "wf_board (board g)" using ra by (simp add: records_agree_def)
  from move_piece_success[OF wf mv'] obtain sr sc dr dc p
    where ds: "decode_location source = Inr (sr, sc)"
      and dd: "decode_location destination = Inr (dr, dc)"
      and sp: "board g ! nat sr ! nat sc = Some p" by blast
  have vs: "valid_index sr sc" and vd: "valid_index dr dc"
    using decode_valid[OF ds] decode_valid[OF dd] by simp_all
  have chk: "is_in_check g1 (current_player g) = Inr True" if "(sr, sc) \<noteq> (dr, dc)"
    by (rule check_after_move[OF ra wfd ds dd sp that mv' att'])
  from make_move_rejected_when_checked[OF wf unfinished differ ds dd sp mv' chk]
  obtain g' where mm: "make_move source destination g = (Inr False, g')"
    and b: "board g' = board g"
    and c: "current_player g' = current_player g"
    and s: "game_state g' = game_state g"
    and rest: "g' = g \<or>
                 (pieces g' = (pieces g)(p := (pieces g p)\<lparr>piece_location := source\<rparr>)
                  \<and> (\<forall>c. get_cart g' c =
                        (case board g ! nat dr ! nat dc of None \<Rightarrow> get_cart g c
                         | Some q \<Rightarrow> if piece_owner (pieces g q) = c
                                     then remove1 q (get_cart g c) @ [q] else get_cart g c)))"
    by blast
  have loc: "piece_location (pieces g p) = source"
    using records_agree_board(1)[OF ra vs] sp well_formed_square_name[OF wfs ds]
    by (simp add: occupant_at_def)
  have pc: "pieces g' = pieces g"
    using rest
  proof
    assume "g' = g" then show ?thesis by simp
  next
    assume "pieces g' = (pieces g)(p := (pieces g p)\<lparr>piece_location := source\<rparr>)
                  \<and> (\<forall>c. get_cart g' c =
                        (case board g ! nat dr ! nat dc of None \<Rightarrow> get_cart g c
                         | Some q \<Rightarrow> if piece_owner (pieces g q) = c
                                     then remove1 q (get_cart g c) @ [q] else get_cart g c))"
    then have "pieces g' = (pieces g)(p := (pieces g p)\<lparr>piece_location := source\<rparr>)" by blast
    also have "(pieces g p)\<lparr>piece_location := source\<rparr> = pieces g p" using loc by simp
    finally show ?thesis by simp
  qed
  have carts: "mset (get_cart g' c) = mset (get_cart g c)" for c
    using rest
  proof
    assume "g' = g" then show ?thesis by simp
  next
    assume "pieces g' = (pieces g)(p := (pieces g p)\<lparr>piece_location := source\<rparr>)
                  \<and> (\<forall>c. get_cart g' c =
                        (case board g ! nat dr ! nat dc of None \<Rightarrow> get_cart g c
                         | Some q \<Rightarrow> if piece_owner (pieces g q) = c
                                     then remove1 q (get_cart g c) @ [q] else get_cart g c))"
    then have f: "get_cart g' c =
                        (case board g ! nat dr ! nat dc of None \<Rightarrow> get_cart g c
                         | Some q \<Rightarrow> if piece_owner (pieces g q) = c
                                     then remove1 q (get_cart g c) @ [q] else get_cart g c)"
      by blast
    show ?thesis
    proof (cases "board g ! nat dr ! nat dc")
      case None
      then show ?thesis using f by simp
    next
      case (Some q)
      then have "occupant_at g (dr, dc) = Some q" by (simp add: occupant_at_def)
      then have "q \<in> set (get_cart g (piece_owner (pieces g q)))"
        by (rule records_agree_board(2)[OF ra vd])
      then show ?thesis using f Some by auto
    qed
  qed
  show ?thesis
    using mm b c s pc carts[of Blue] carts[of Red] by simp
qed

text \<open>
  The witness of C1: in the position of the pinned Cannon the red Cannon on d5 gives check
  to the blue General on d10. The blue Guard may step from e9 to f9 by its rule, the
  General is still attacked on the board after the step, and the request is refused.
\<close>

theorem make_move_rejects_board_check_witness:
  "records_agree pinned_cannon_position
   \<and> piece_is_legal pinned_cannon_position 4 ''e9'' ''f9'' = Inr True
   \<and> fst (move_piece ''e9'' ''f9'' pinned_cannon_position) = Inr ()
   \<and> attacked_on_board (snd (move_piece ''e9'' ''f9'' pinned_cannon_position)) Blue
   \<and> fst (make_move ''e9'' ''f9'' pinned_cannon_position) = Inr False
   \<and> board (snd (make_move ''e9'' ''f9'' pinned_cannon_position)) = board pinned_cannon_position
   \<and> pieces (snd (make_move ''e9'' ''f9'' pinned_cannon_position)) = pieces pinned_cannon_position
   \<and> mset (blue_cart (snd (make_move ''e9'' ''f9'' pinned_cannon_position)))
       = mset (blue_cart pinned_cannon_position)
   \<and> mset (red_cart (snd (make_move ''e9'' ''f9'' pinned_cannon_position)))
       = mset (red_cart pinned_cannon_position)
   \<and> current_player (snd (make_move ''e9'' ''f9'' pinned_cannon_position)) = Blue"
proof -
  have h1: "records_agree pinned_cannon_position" by code_simp
  have h2: "game_state pinned_cannon_position = ''UNFINISHED''" by code_simp
  have h3: "well_formed ''e9''" by code_simp
  have h4: "well_formed ''f9''" by code_simp
  have h5: "''e9'' \<noteq> ''f9''" by simp
  have h6: "fst (move_piece ''e9'' ''f9'' pinned_cannon_position) = Inr ()" by code_simp
  have h7: "current_player pinned_cannon_position = Blue" by code_simp
  have h8: "attacked_on_board (snd (move_piece ''e9'' ''f9'' pinned_cannon_position)) Blue"
    by code_simp
  have h9: "attacked_on_board (snd (move_piece ''e9'' ''f9'' pinned_cannon_position))
              (current_player pinned_cannon_position)"
    unfolding h7 by (rule h8)
  have h10: "piece_is_legal pinned_cannon_position 4 ''e9'' ''f9'' = Inr True" by code_simp
  show ?thesis
    using make_move_rejects_board_check [OF h1 h2 h3 h4 h5 h6 h9] h1 h6 h7 h8 h10 by simp
qed

text \<open>
  C1 as the specification states it speaks of every unfinished game, and fails. The check
  test, is\_in\_check, does not read the squares of the attackers off the board: it gives
  the rule of each opposing piece the location recorded in the piece, which is the
  destination string of the request that moved it, and the rules compare that string with
  the names of the palace squares. In chariot\_position, where the records agree with the
  board, blue asks to move the Chariot from d4 to d3xx; decode\_location reads d3xx as d3,
  the request is accepted, the Chariot stands on d3 and its record says d3xx. Red then
  asks to move the Soldier from i4 to h4. On the board after that move the Chariot reaches
  the red General on e2 from d3 along the diagonal of the palace, so the red General is
  attacked; from d3xx, which is no palace corner, the rule answers False, is\_in\_check
  answers False, and make\_move accepts the request and passes the turn to blue.
\<close>

theorem make_move_accepts_board_check_counterexample:
  "records_agree chariot_position
   \<and> fst (make_move ''d4'' ''d3xx'' chariot_position) = Inr True
   \<and> game_state chariot_on_d3 = ''UNFINISHED''
   \<and> current_player chariot_on_d3 = Red
   \<and> occupant_at chariot_on_d3 (2, 3) = Some 2
   \<and> piece_location (pieces chariot_on_d3 2) = ''d3xx''
   \<and> well_formed ''i4'' \<and> well_formed ''h4''
   \<and> fst (move_piece ''i4'' ''h4'' chariot_on_d3) = Inr ()
   \<and> piece_is_legal (snd (move_piece ''i4'' ''h4'' chariot_on_d3)) 2 ''d3'' ''e2'' = Inr True
   \<and> attacked_on_board (snd (move_piece ''i4'' ''h4'' chariot_on_d3)) Red
   \<and> piece_is_legal (snd (move_piece ''i4'' ''h4'' chariot_on_d3)) 2 ''d3xx'' ''e2'' = Inr False
   \<and> is_in_check (snd (move_piece ''i4'' ''h4'' chariot_on_d3)) Red = Inr False
   \<and> fst (make_move ''i4'' ''h4'' chariot_on_d3) = Inr True
   \<and> occupant_at (snd (make_move ''i4'' ''h4'' chariot_on_d3)) (3, 7) = Some 1
   \<and> current_player (snd (make_move ''i4'' ''h4'' chariot_on_d3)) = Blue"
  by code_simp

text \<open>
  C2 (amended). The sequence prep\_temp\_move, move\_piece, logic, undo\_temp\_move gives the
  board back as it was: for every board of ten rows of nine cells, every source square
  holding a piece whose recorded location is the source, every destination square other
  than the source square and every logic in between that returns a result, each cell holds
  the same piece as before and every piece has the same recorded location as before,
  whatever the result of the logic is.
\<close>

theorem temp_move_restores_board:
  assumes "wf_board (board g)"
    and "decode_location source = Inr (sr, sc)"
    and "decode_location destination = Inr (dr, dc)"
    and "(sr, sc) \<noteq> (dr, dc)"
    and "board_get (board g) sr sc = Inr (Some p)"
    and "piece_location (pieces g p) = source"
    and "logic (during_temp_move source destination g) = Inr r"
  shows "\<exists>g'. temp_move source destination logic g = (Inr r, g')
            \<and> board g' = board g \<and> pieces g' = pieces g"
proof -
  have sp: "board g ! nat sr ! nat sc = Some p"
    using assms(1,5) decode_range[OF assms(2)] by (simp add: board_get_wf)
  from temp_move_fields[where logic=logic, OF assms(1,2,3) sp assms(4,7)]
  obtain g' where run: "temp_move source destination logic g = (Inr r, g')"
    and b: "board g' = board g"
    and p: "pieces g' = (pieces g)(p := (pieces g p)\<lparr>piece_location := source\<rparr>)"
    by blast
  have "(pieces g p)\<lparr>piece_location := source\<rparr> = pieces g p"
    using assms(6) by (metis piece.update_convs(2) piece.surjective piece.select_convs(2) piece.equality)
  then have "pieces g' = pieces g" using p by simp
  then show ?thesis using run b by blast
qed


text \<open>
  The witness of C2: the temporary move of the blue Soldier from e7 to e6 in the opening
  position, with the check test of Board.is\_legal in between.
\<close>

theorem temp_move_restores_board_witness:
  "wf_board (board initial_game)
   \<and> decode_location ''e7'' = Inr (6, 4) \<and> decode_location ''e6'' = Inr (5, 4)
   \<and> ((6, 4) :: int \<times> int) \<noteq> (5, 4)
   \<and> board_get (board initial_game) 6 4 = Inr (Some 18)
   \<and> piece_location (pieces initial_game 18) = ''e7''
   \<and> is_in_check (during_temp_move ''e7'' ''e6'' initial_game) Blue = Inr False
   \<and> (\<exists>g'. temp_move ''e7'' ''e6'' (\<lambda>g. is_in_check g Blue) initial_game = (Inr False, g')
            \<and> board g' = board initial_game \<and> pieces g' = pieces initial_game)"
proof -
  have h1: "wf_board (board initial_game)" by code_simp
  have h2: "decode_location ''e7'' = Inr (6, 4)" by code_simp
  have h3: "decode_location ''e6'' = Inr (5, 4)" by code_simp
  have h4: "((6, 4) :: int \<times> int) \<noteq> (5, 4)" by simp
  have h5: "board_get (board initial_game) 6 4 = Inr (Some 18)" by code_simp
  have h6: "piece_location (pieces initial_game 18) = ''e7''" by code_simp
  have h7: "is_in_check (during_temp_move ''e7'' ''e6'' initial_game) Blue = Inr False"
    by code_simp
  show ?thesis
    using temp_move_restores_board
      [where logic = "\<lambda>g. is_in_check g Blue", OF h1 h2 h3 h4 h5 h6 h7] h1 h2 h3 h4 h5 h6 h7
    by blast
qed


text \<open>
  C2 as stated fails when the destination square is the source square: move\_piece empties
  the square, undo\_temp\_move then finds no piece to put back and raises AttributeError,
  and the Soldier of e7 is gone from the board.
\<close>

theorem temp_move_counterexample:
  "wf_board (board initial_game)
   \<and> board_get (board initial_game) 6 4 = Inr (Some 18)
   \<and> fst (temp_move ''e7'' ''e7'' (\<lambda>_. Inr True) initial_game) = Inl AttributeError
   \<and> board_get (board (snd (temp_move ''e7'' ''e7'' (\<lambda>_. Inr True) initial_game))) 6 4 = Inr None"
  by code_simp

text \<open>
  C7 (amended). decode\_location succeeds on every well-formed coordinate string (one letter
  a to i followed by the numeral of a number from 1 to 10) and fails with an error on every
  other string of at most three characters. Of a string of four or more characters it
  reads the first two characters only, and succeeds exactly when these two form a
  well-formed coordinate. It is a function of the string alone and changes no game state.
\<close>

theorem decode_location_succeeds_iff:
  "(\<exists>rc. decode_location s = Inr rc) \<longleftrightarrow>
     (well_formed s \<or> (3 < length s \<and> well_formed (take 2 s)))"
proof (cases s)
  case Nil
  then show ?thesis by (simp add: decode_cases well_formed_def)
next
  case (Cons a s1)
  note s = this
  show ?thesis
  proof (cases s1)
    case Nil
    then show ?thesis using s by (simp add: decode_cases well_formed_def)
  next
    case (Cons b s2)
    note s1 = this
    show ?thesis
    proof (cases s2)
      case Nil
      then show ?thesis using s s1 col_some[of a] row_some1[of b]
        by (auto simp add: decode_cases well_formed_def)
    next
      case (Cons c s3)
      note s2 = this
      show ?thesis
      proof (cases s3)
        case Nil
        then show ?thesis using s s1 s2 col_some[of a] row_some2[of b c]
          by (auto simp add: decode_cases well_formed_def)
      next
        case (Cons d s4)
        then show ?thesis using s s1 s2 col_some[of a] row_some1[of b]
          by (auto simp add: decode_cases well_formed_def)
      qed
    qed
  qed
qed


text \<open>The witness of C7: b7 is well formed and decodes.\<close>

theorem decode_location_succeeds_iff_witness:
  "well_formed ''b7'' \<and> (\<exists>rc. decode_location ''b7'' = Inr rc)"
proof -
  have w: "well_formed ''b7''" by code_simp
  then show ?thesis using decode_location_succeeds_iff [of "''b7''"] by blast
qed

text \<open>
  C7 as stated fails on a string with extra characters: a1xyz is not well formed, and
  decodes to row 0, column 0.
\<close>

theorem decode_location_counterexample:
  "\<not> well_formed ''a1xyz'' \<and> decode_location ''a1xyz'' = Inr (0, 0)"
  by code_simp


text \<open>
  C8. For every valid index pair (row 0 to 9, column 0 to 8) encode\_location returns a
  string, and decoding that string gives the pair back; for every well-formed coordinate
  string, decoding succeeds and encoding the decoded pair gives the string back.
\<close>

theorem codec_round_trip:
  "(valid_index row column \<longrightarrow>
      (\<exists>t. encode_location row column = Inr t \<and> decode_location t = Inr (row, column)))
   \<and> (well_formed s \<longrightarrow>
      (\<exists>r c. decode_location s = Inr (r, c) \<and> encode_location r c = Inr s))"
  using decode_encode [of row column] encode_decode [of s] by blast

text \<open>The witness of C8: row 6, column 1 and the string b7.\<close>

theorem codec_round_trip_witness:
  "valid_index 6 1 \<and> well_formed ''b7''
   \<and> (\<exists>t. encode_location 6 1 = Inr t \<and> decode_location t = Inr (6, 1))
   \<and> (\<exists>r c. decode_location ''b7'' = Inr (r, c) \<and> encode_location r c = Inr ''b7'')"
proof -
  have v: "valid_index 6 1" by code_simp
  have w: "well_formed ''b7''" by code_simp
  show ?thesis using codec_round_trip [of 6 1 "''b7''"] v w by blast
qed

text \<open>
  C6 (amended). For every game and every pair of coordinates whose source square is
  empty, Board.is\_legal raises AttributeError (the empty cell has no owner) and leaves the
  game as it was. The empty source is rejected one level up: make\_move, in an unfinished
  game and with source and destination different, returns False before it calls
  Board.is\_legal, and changes nothing.
\<close>

theorem Board_is_legal_empty_source_raises:
  assumes "decode_location source = Inr (sr, sc)"
    and "board_get (board g) sr sc = Inr None"
  shows "Board_is_legal source destination g = (Inl AttributeError, g)
       \<and> (game_state g = ''UNFINISHED'' \<and> source \<noteq> destination \<longrightarrow>
            make_move source destination g = (Inr False, g))"
  using assms by (simp add: Board_is_legal_def make_move_def get_occupant_def)


text \<open>The witness of C6: the empty square e5 of the opening position.\<close>

theorem Board_is_legal_empty_source_raises_witness:
  "decode_location ''e5'' = Inr (4, 4)
   \<and> board_get (board initial_game) 4 4 = Inr None
   \<and> game_state initial_game = ''UNFINISHED'' \<and> ''e5'' \<noteq> ''e6''
   \<and> Board_is_legal ''e5'' ''e6'' initial_game = (Inl AttributeError, initial_game)
   \<and> make_move ''e5'' ''e6'' initial_game = (Inr False, initial_game)"
proof -
  have h1: "decode_location ''e5'' = Inr (4, 4)" by code_simp
  have h2: "board_get (board initial_game) 4 4 = Inr None" by code_simp
  have h3: "game_state initial_game = ''UNFINISHED''" by code_simp
  have h4: "''e5'' \<noteq> ''e6''" by simp
  show ?thesis
    using Board_is_legal_empty_source_raises [OF h1 h2, of "''e6''"] h1 h2 h3 h4 by blast
qed

text \<open>
  C6 as stated fails: on the empty square e5 of the opening position Board.is\_legal does
  not return False, it raises.
\<close>

theorem Board_is_legal_counterexample:
  "get_occupant initial_game ''e5'' = Inr None
   \<and> fst (Board_is_legal ''e5'' ''e6'' initial_game) = Inl AttributeError"
  by code_simp


text \<open>
  C10. In an unfinished game whose current player is not in check, make\_move(s, s) is
  accepted as a pass for every string s, also one that names no square: it returns True
  and the only change is that the other player is to move. The strings are compared
  before anything is decoded.
\<close>

theorem make_move_pass:
  assumes "game_state g = ''UNFINISHED''"
    and "game_is_in_check g (get_color (current_player g)) = Inr False"
  shows "make_move s s g = (Inr True, g\<lparr>current_player := opponent_of (current_player g)\<rparr>)"
  using assms by (cases "current_player g") (simp_all add: make_move_def toggle_players_def)


text \<open>The witness of C10: the string zz, which decode\_location rejects, in the opening position.\<close>

theorem make_move_pass_witness:
  "game_state initial_game = ''UNFINISHED''
   \<and> game_is_in_check initial_game (get_color (current_player initial_game)) = Inr False
   \<and> decode_location ''zz'' = Inl KeyError
   \<and> make_move ''zz'' ''zz'' initial_game
       = (Inr True, initial_game\<lparr>current_player := opponent_of (current_player initial_game)\<rparr>)"
proof -
  have h1: "game_state initial_game = ''UNFINISHED''" by code_simp
  have h2: "game_is_in_check initial_game (get_color (current_player initial_game)) = Inr False"
    by code_simp
  have h3: "decode_location ''zz'' = Inl KeyError" by code_simp
  show ?thesis using make_move_pass [OF h1 h2, of "''zz''"] h1 h2 h3 by blast
qed

text \<open>
  C5 (amended). For every game and every Soldier: a step accepted by the Soldier's
  movement rule that changes both row and column is one of the eight palace entry
  diagonals (corner to centre or centre to corner), one row and one column long; it is
  forward for the Soldier's colour (row index decreasing for blue, increasing for red)
  whenever the Soldier stands where a Soldier can be, that is, not behind its starting
  rank (row index at most 6 for blue, at least 3 for red). An accepted step within a column
  goes exactly one row forward, so no backward orthogonal move is accepted, and an
  accepted step within a row goes exactly one column sideways.
\<close>

theorem Soldier_is_legal_steps:
  assumes "Soldier_is_legal g self source destination = Inr True"
    and "decode_location source = Inr (from_row, from_col)"
    and "decode_location destination = Inr (to_row, to_col)"
  shows "(from_row \<noteq> to_row \<and> from_col \<noteq> to_col \<longrightarrow>
            (source, destination) \<in> set palace_entry_diagonals
            \<and> \<bar>to_row - from_row\<bar> = 1 \<and> \<bar>to_col - from_col\<bar> = 1
            \<and> (piece_owner (pieces g self) = Blue \<and> from_row \<le> 6 \<longrightarrow> to_row < from_row)
            \<and> (piece_owner (pieces g self) = Red \<and> 3 \<le> from_row \<longrightarrow> from_row < to_row))
       \<and> (from_col = to_col \<longrightarrow>
            to_row - from_row = (if piece_owner (pieces g self) = Blue then - 1 else 1))
       \<and> (from_row = to_row \<longrightarrow> \<bar>to_col - from_col\<bar> = 1)"
proof (intro conjI impI)
  assume diag: "from_row \<noteq> to_row \<and> from_col \<noteq> to_col"
  with assms have mem: "(source, destination) \<in> set palace_entry_diagonals"
    by (auto simp: Soldier_is_legal_def palace_entry_diagonals_def bindE_def
             split: sum.splits if_splits)
  then show "(source, destination) \<in> set palace_entry_diagonals" .
  from mem assms(2,3) show "\<bar>to_row - from_row\<bar> = 1" "\<bar>to_col - from_col\<bar> = 1"
    by (auto simp: palace_entry_diagonals_def)
  { assume "piece_owner (pieces g self) = Blue \<and> from_row \<le> 6"
    with mem assms(2,3) show "to_row < from_row"
      by (auto simp: palace_entry_diagonals_def) }
  { assume "piece_owner (pieces g self) = Red \<and> 3 \<le> from_row"
    with mem assms(2,3) show "from_row < to_row"
      by (auto simp: palace_entry_diagonals_def) }
next
  assume "from_col = to_col"
  with assms show "to_row - from_row = (if piece_owner (pieces g self) = Blue then - 1 else 1)"
    by (cases "piece_owner (pieces g self)")
       (auto simp: Soldier_is_legal_def bindE_def split: sum.splits if_splits)
next
  assume "from_row = to_row"
  with assms show "\<bar>to_col - from_col\<bar> = 1"
    by (auto simp: Soldier_is_legal_def bindE_def split: sum.splits if_splits)
qed


text \<open>The witness of C5: the blue Soldier on f3 steps to the centre e2 of the red palace.\<close>

theorem Soldier_is_legal_steps_witness:
  "Soldier_is_legal soldier_position 3 ''f3'' ''e2'' = Inr True
   \<and> decode_location ''f3'' = Inr (2, 5) \<and> decode_location ''e2'' = Inr (1, 4)
   \<and> piece_owner (pieces soldier_position 3) = Blue
   \<and> (''f3'', ''e2'') \<in> set palace_entry_diagonals \<and> (1::int) < 2"
proof -
  have h1: "Soldier_is_legal soldier_position 3 ''f3'' ''e2'' = Inr True" by code_simp
  have h2: "decode_location ''f3'' = Inr (2, 5)" by code_simp
  have h3: "decode_location ''e2'' = Inr (1, 4)" by code_simp
  have h4: "piece_owner (pieces soldier_position 3) = Blue" by code_simp
  show ?thesis using Soldier_is_legal_steps [OF h1 h2 h3] h1 h2 h3 h4 by simp
qed


text \<open>
  C5 as stated, for every board state, fails: the rule for the diagonals does not look at
  the colour. A red Soldier placed on d3 may step to e2, from row index 2 to row index 1,
  which is backward for red. (No red Soldier gets to d3 in play: Soldiers start on row
  index 3 and never retreat.)
\<close>

theorem Soldier_is_legal_counterexample:
  "piece_kind (pieces soldier_position 1) = Soldier
   \<and> piece_owner (pieces soldier_position 1) = Red
   \<and> get_occupant soldier_position ''d3'' = Inr (Some 1)
   \<and> decode_location ''d3'' = Inr (2, 3) \<and> decode_location ''e2'' = Inr (1, 4)
   \<and> piece_is_legal soldier_position 1 ''d3'' ''e2'' = Inr True"
  by code_simp

text \<open>
  C9. For every game, reachable or not, and every call of make\_move that returns: if it
  returns True (an accepted move or an accepted pass) the player to move afterwards is the
  opponent of the player to move before; if it returns False the player to move is
  unchanged.
\<close>

theorem make_move_turn:
  assumes "make_move source destination g = (Inr accepted, g')"
  shows "current_player g' =
           (if accepted then opponent_of (current_player g) else current_player g)"
proof (cases "game_state g \<noteq> ''UNFINISHED''")
  case True
  with assms show ?thesis by (auto simp: make_move_def)
next
  case unfinished: False
  show ?thesis
  proof (cases "source = destination")
    case True
    with assms unfinished show ?thesis
      by (cases "current_player g")
         (auto simp: make_move_def toggle_players_def split: sum.splits if_splits)
  next
    case differ: False
    show ?thesis
    proof (cases "get_occupant g source")
      case (Inl e)
      with assms unfinished differ show ?thesis by (simp add: make_move_def)
    next
      case (Inr occ)
      show ?thesis
      proof (cases occ)
        case None
        with assms unfinished differ Inr show ?thesis by (auto simp: make_move_def)
      next
        case (Some sp)
        show ?thesis
        proof (cases "piece_owner (pieces g sp) \<noteq> current_player g")
          case True
          with assms unfinished differ Inr Some show ?thesis by (auto simp: make_move_def)
        next
          case own: False
          obtain r1 g1 where l: "Board_is_legal source destination g = (r1, g1)" by fastforce
          have c1: "current_player g1 = current_player g"
            by (rule keeps_turnD[OF keeps_turn_Board_is_legal l])
          from assms unfinished differ Inr Some own l
          have run: "(case r1 of Inl e \<Rightarrow> (Inl e, g1)
                | Inr legal \<Rightarrow>
                    if legal then
                      bindS (move_piece source destination) (\<lambda>_.
                      bindS toggle_players (\<lambda>_.
                      bindS (gets current_player) (\<lambda>player.
                      bindS (is_in_checkmate player) (\<lambda>mate.
                      bindS (if mate then
                          modify (\<lambda>g. g\<lparr>game_state :=
                                  (if player = Blue then ''RED_WON'' else ''BLUE_WON'')\<rparr>)
                        else pureS (Inr ())) (\<lambda>_.
                      pureS (Inr True)))))) g1
                    else (Inr False, g1)) = (Inr accepted, g')"
            by (cases r1)
               (auto simp add: make_move_def bindS_def [of "Board_is_legal source destination"]
                     split: if_splits)
          show ?thesis
          proof (cases r1)
            case (Inl e)
            with run show ?thesis by simp
          next
            case (Inr legal)
            show ?thesis
            proof (cases legal)
              case True
              with run Inr make_move_committed_turn[of source destination g1 accepted g'] c1
              show ?thesis by simp
            next
              case False
              with run Inr c1 show ?thesis by auto
            qed
          qed
        qed
      qed
    qed
  qed
qed


text \<open>
  The witness of C9, in the opening position with blue to move: the move e7 to e6 is
  accepted and red is to move; the move e4 to e5 of a red Soldier is rejected and blue is
  still to move.
\<close>

theorem make_move_turn_witness:
  "make_move ''e7'' ''e6'' initial_game = (Inr True, snd (make_move ''e7'' ''e6'' initial_game))
   \<and> current_player initial_game = Blue
   \<and> current_player (snd (make_move ''e7'' ''e6'' initial_game)) = Red
   \<and> make_move ''e4'' ''e5'' initial_game = (Inr False, snd (make_move ''e4'' ''e5'' initial_game))
   \<and> current_player (snd (make_move ''e4'' ''e5'' initial_game)) = Blue"
proof -
  have "fst (make_move ''e7'' ''e6'' initial_game) = Inr True" by code_simp
  then have h1: "make_move ''e7'' ''e6'' initial_game
                = (Inr True, snd (make_move ''e7'' ''e6'' initial_game))"
    by (metis prod.collapse)
  have "fst (make_move ''e4'' ''e5'' initial_game) = Inr False" by code_simp
  then have h2: "make_move ''e4'' ''e5'' initial_game
                = (Inr False, snd (make_move ''e4'' ''e5'' initial_game))"
    by (metis prod.collapse)
  have h3: "current_player initial_game = Blue" by code_simp
  show ?thesis
    using make_move_turn [OF h1] make_move_turn [OF h2] h1 h2 h3 by simp
qed

text \<open>
  C3 says that the attackers listed by is\_in\_checkmate are exactly the opposing pieces
  whose movement rule reaches the defending General, whether or not the capture would
  expose the attacker's own General. The code lists them with Board.is\_legal, the
  composite test, and so drops an attacker whose capture of the General would leave its
  own side in check. In the position below the red Cannon on d5 gives check to the blue
  General on d10 over the blue Chariot on d7, and is\_in\_check says so; the Cannon is the
  one pure attacker, but the list built by is\_in\_checkmate is empty, because with the
  Cannon gone from d5 the Chariot would reach the red General on d2. The capture and the
  block are then never tried: is\_in\_checkmate answers checkmate although the Chariot
  may legally take the Cannon.
\<close>

theorem attacker_list_skips_pinned_cannon:
  "wf_board (board pinned_cannon_position)
   \<and> get_general pinned_cannon_position Blue = Some 3
   \<and> piece_location (pieces pinned_cannon_position 3) = ''d10''
   \<and> is_in_check pinned_cannon_position Blue = Inr True
   \<and> pure_attackers pinned_cannon_position ''d10'' (red_cart pinned_cannon_position) = [1]
   \<and> fst (attacker_list ''d10'' (red_cart pinned_cannon_position) pinned_cannon_position) = Inr []
   \<and> fst (Board_is_legal ''d7'' ''d5'' pinned_cannon_position) = Inr True
   \<and> fst (is_in_checkmate Blue pinned_cannon_position) = Inr True"
  by code_simp

text \<open>
  C4. For every game on a board of ten rows of nine cells and every Cannon standing on
  its source square, the Cannon's movement rule over (source, destination) holds exactly
  when the destination lies on a Cannon path from the source (along the row, along the
  column, or from one corner of a palace to the opposite corner), exactly one square
  strictly between the two is occupied, no Cannon stands on the path, and the destination
  holds neither a friendly piece nor a Cannon of either side. The rule returns this
  answer and raises nothing.
\<close>

theorem Cannon_rule_exact:
  assumes "wf_board (board g)"
    and "valid_index r1 c1" and "valid_index r2 c2"
    and "occupant_at g (r1, c1) = Some self"
    and "piece_kind (pieces g self) = Cannon"
  shows "piece_is_legal g self (square_name (r1, c1)) (square_name (r2, c2))
           = Inr (cannon_rule g self (r1, c1) (r2, c2))"
  using Cannon_is_legal_rule[OF assms(1-4)] assms(5) by (simp add: piece_is_legal_def)


text \<open>
  The witness of C4: the red Cannon on b3 jumps over the red Soldier on b5 and takes the
  blue Soldier on b7; it reaches neither b8 (two pieces in between), nor b4 (none), nor
  the blue Cannon on h3.
\<close>

theorem Cannon_rule_exact_witness:
  "wf_board (board cannon_position) \<and> valid_index 2 1 \<and> valid_index 6 1 \<and> valid_index 7 1
   \<and> valid_index 3 1 \<and> valid_index 2 7
   \<and> occupant_at cannon_position (2, 1) = Some 1
   \<and> piece_kind (pieces cannon_position 1) = Cannon
   \<and> square_name (2, 1) = ''b3'' \<and> square_name (6, 1) = ''b7''
   \<and> cannon_rule cannon_position 1 (2, 1) (6, 1)
   \<and> piece_is_legal cannon_position 1 (square_name (2, 1)) (square_name (6, 1)) = Inr True
   \<and> piece_is_legal cannon_position 1 (square_name (2, 1)) (square_name (7, 1)) = Inr False
   \<and> piece_is_legal cannon_position 1 (square_name (2, 1)) (square_name (3, 1)) = Inr False
   \<and> piece_is_legal cannon_position 1 (square_name (2, 1)) (square_name (2, 7)) = Inr False"
proof -
  have h1: "wf_board (board cannon_position)" by code_simp
  have h2: "valid_index 2 1" by code_simp
  have h3: "valid_index 6 1" "valid_index 7 1" "valid_index 3 1" "valid_index 2 7"
    by code_simp+
  have h4: "occupant_at cannon_position (2, 1) = Some 1" by code_simp
  have h5: "piece_kind (pieces cannon_position 1) = Cannon" by code_simp
  have n: "square_name (2, 1) = ''b3''" "square_name (6, 1) = ''b7''" by code_simp+
  have r: "cannon_rule cannon_position 1 (2, 1) (6, 1)"
    "\<not> cannon_rule cannon_position 1 (2, 1) (7, 1)"
    "\<not> cannon_rule cannon_position 1 (2, 1) (3, 1)"
    "\<not> cannon_rule cannon_position 1 (2, 1) (2, 7)"
    by code_simp+
  show ?thesis
    using Cannon_rule_exact [OF h1 h2 h3(1) h4 h5] Cannon_rule_exact [OF h1 h2 h3(2) h4 h5]
      Cannon_rule_exact [OF h1 h2 h3(3) h4 h5] Cannon_rule_exact [OF h1 h2 h3(4) h4 h5]
      h1 h2 h3 h4 h5 n r
    by simp
qed

end
